theory Spec2Isabelle
  imports Main "HOL-Library.Multiset" "HOL-Library.Sublist"
begin

section \<open>Python values, exceptions and the object store\<close>

text \<open>
  The module \<open>problem.py\<close> works on Python lists, which are mutable objects reached
  through references. A state of the 8-queens problem is a \<open>List[int]\<close>, a state of the
  8-puzzle a \<open>List[List[int]]\<close>: an outer list whose elements are references to row lists.
  The store keeps the two kinds of object apart, as the type annotations of the source do.
  An address is an index into the store; allocation appends.

  Exceptions are values. The messages are those of the source with the accents dropped
  (the source writes \<open>invalido\<close>, \<open>Accion invalida\<close> and \<open>limites\<close> with accented letters).
  \<open>NoSuchObject\<close> is no Python exception: it is what the model answers when an address
  is not allocated, which a Python reference never is.
\<close>

datatype error =
    ValueError string
  | IndexError string
  | KeyError int
  | NoSuchObject

record heap =
  rows :: "int list list"
  grids :: "nat list list"

text \<open>\<open>xs[i]\<close> for an index \<open>i \<ge> 0\<close>.\<close>

definition getitem :: "'a list \<Rightarrow> nat \<Rightarrow> error + 'a" where
  "getitem xs i =
     (if i < length xs then Inr (xs ! i) else Inl (IndexError ''list index out of range''))"

definition row_at :: "heap \<Rightarrow> nat \<Rightarrow> error + int list" where
  "row_at h a = (if a < length (rows h) then Inr (rows h ! a) else Inl NoSuchObject)"

definition grid_at :: "heap \<Rightarrow> nat \<Rightarrow> error + nat list" where
  "grid_at h a = (if a < length (grids h) then Inr (grids h ! a) else Inl NoSuchObject)"

text \<open>\<open>list(xs)\<close> for a list of ints: a new object with the same elements.\<close>

definition new_row :: "heap \<Rightarrow> int list \<Rightarrow> nat \<times> heap" where
  "new_row h xs = (length (rows h), h\<lparr>rows := rows h @ [xs]\<rparr>)"

definition new_grid :: "heap \<Rightarrow> nat list \<Rightarrow> nat \<times> heap" where
  "new_grid h as = (length (grids h), h\<lparr>grids := grids h @ [as]\<rparr>)"

text \<open>
  Every object of \<open>h\<close> is still there in \<open>h'\<close>, at the same address and with the same
  contents: nothing that existed was mutated.
\<close>

definition preserved :: "heap \<Rightarrow> heap \<Rightarrow> bool" where
  "preserved h h' \<longleftrightarrow> prefix (rows h) (rows h') \<and> prefix (grids h) (grids h')"


section \<open>EightQueensProblem\<close>

text \<open>
  \<open>random.randint\<close> belongs to Python's standard library. It is a parameter
  \<open>randint\<close> of the model, working on a generator state \<open>'g\<close>.
\<close>

definition N :: int where
  "N = 8"

record queens_problem =
  q_initial :: nat

fun randints :: "('g \<Rightarrow> int \<Rightarrow> int \<Rightarrow> int \<times> 'g) \<Rightarrow> 'g \<Rightarrow> nat \<Rightarrow> int list \<times> 'g" where
  "randints randint g 0 = ([], g)"
| "randints randint g (Suc k) =
     (case randint g 1 N of (v, g') \<Rightarrow>
        (case randints randint g' k of (vs, g'') \<Rightarrow> (v # vs, g'')))"

text \<open>\<open>estado_aleatorio\<close>: \<open>[random.randint(1, self.N) for _ in range(self.N)]\<close>.\<close>

definition q_estado_aleatorio ::
  "('g \<Rightarrow> int \<Rightarrow> int \<Rightarrow> int \<times> 'g) \<Rightarrow> 'g \<Rightarrow> heap \<Rightarrow> (nat \<times> heap) \<times> 'g" where
  "q_estado_aleatorio randint g h =
     (case randints randint g (nat N) of (vs, g') \<Rightarrow> (new_row h vs, g'))"

text \<open>
  \<open>__init__\<close>: without an initial state a random one; otherwise the length check and
  \<open>self._initial = list(initial)\<close>. An exception in \<open>__init__\<close> leaves no instance.
\<close>

definition q_init ::
  "('g \<Rightarrow> int \<Rightarrow> int \<Rightarrow> int \<times> 'g) \<Rightarrow> 'g \<Rightarrow> heap \<Rightarrow> nat option
     \<Rightarrow> ((error + queens_problem) \<times> heap) \<times> 'g" where
  "q_init randint g h initial =
     (case initial of
        None \<Rightarrow>
          (case q_estado_aleatorio randint g h of
             ((a, h'), g') \<Rightarrow> ((Inr \<lparr>q_initial = a\<rparr>, h'), g'))
      | Some i \<Rightarrow>
          (case row_at h i of
             Inl e \<Rightarrow> ((Inl e, h), g)
           | Inr xs \<Rightarrow>
               if int (length xs) \<noteq> N
               then ((Inl (ValueError ''Estado inicial debe tener longitud 8''), h), g)
               else (case new_row h xs of
                       (a, h') \<Rightarrow> ((Inr \<lparr>q_initial = a\<rparr>, h'), g))))"

text \<open>\<open>estado_inicial\<close>: \<open>list(self._initial)\<close>.\<close>

definition q_estado_inicial :: "queens_problem \<Rightarrow> heap \<Rightarrow> (error + nat) \<times> heap" where
  "q_estado_inicial self h =
     (case row_at h (q_initial self) of
        Inl e \<Rightarrow> (Inl e, h)
      | Inr xs \<Rightarrow> (case new_row h xs of (a, h') \<Rightarrow> (Inr a, h')))"

text \<open>
  \<open>acciones\<close>: the two nested \<open>for\<close> loops run through the pairs \<open>(col, row)\<close> in the
  order of \<open>col_row_pairs\<close>; \<open>estado[col - 1]\<close> is read at every pair.
\<close>

definition col_row_pairs :: "(int \<times> int) list" where
  "col_row_pairs = concat (map (\<lambda>col. map (\<lambda>row. (col, row)) [1..N]) [1..N])"

fun q_acciones_loop ::
  "int list \<Rightarrow> (int \<times> int) list \<Rightarrow> (int \<times> int) list \<Rightarrow> error + (int \<times> int) list" where
  "q_acciones_loop estado acts [] = Inr acts"
| "q_acciones_loop estado acts ((col, row) # ps) =
     (case getitem estado (nat (col - 1)) of
        Inl e \<Rightarrow> Inl e
      | Inr v \<Rightarrow>
          q_acciones_loop estado (if v \<noteq> row then acts @ [(row, col)] else acts) ps)"

definition q_acciones :: "heap \<Rightarrow> nat \<Rightarrow> (error + (int \<times> int) list) \<times> heap" where
  "q_acciones h s =
     (case row_at h s of
        Inl e \<Rightarrow> (Inl e, h)
      | Inr estado \<Rightarrow> (q_acciones_loop estado [] col_row_pairs, h))"

text \<open>
  \<open>resultado\<close>: the two range checks, then \<open>new_state = list(estado)\<close> and
  \<open>new_state[col - 1] = row\<close>, which raises IndexError on a list that is too short.
\<close>

definition q_resultado :: "heap \<Rightarrow> nat \<Rightarrow> int \<times> int \<Rightarrow> (error + nat) \<times> heap" where
  "q_resultado h s accion =
     (case accion of (row, col) \<Rightarrow>
        if \<not> (1 \<le> row \<and> row \<le> N) then (Inl (ValueError ''Fila fuera de rango''), h)
        else if \<not> (1 \<le> col \<and> col \<le> N) then (Inl (ValueError ''Columna fuera de rango''), h)
        else
          (case row_at h s of
             Inl e \<Rightarrow> (Inl e, h)
           | Inr estado \<Rightarrow>
               (case new_row h estado of
                  (a, h') \<Rightarrow>
                    if nat (col - 1) < length estado
                    then (Inr a, h'\<lparr>rows := (rows h')[a := estado[nat (col - 1) := row]]\<rparr>)
                    else (Inl (IndexError ''list assignment index out of range''), h'))))"

text \<open>
  \<open>valor_objetivo\<close>: the nested loops run through the pairs \<open>(i, j)\<close> with
  \<open>1 \<le> i < j \<le> N\<close> in the order of \<open>col_pairs\<close>.
\<close>

definition col_pairs :: "(int \<times> int) list" where
  "col_pairs = concat (map (\<lambda>i. map (\<lambda>j. (i, j)) [i + 1..N]) [1..N])"

fun q_valor_loop :: "int list \<Rightarrow> int \<Rightarrow> (int \<times> int) list \<Rightarrow> error + int" where
  "q_valor_loop estado conflictos [] = Inr conflictos"
| "q_valor_loop estado conflictos ((i, j) # ps) =
     (case getitem estado (nat (i - 1)) of
        Inl e \<Rightarrow> Inl e
      | Inr ri \<Rightarrow>
          (case getitem estado (nat (j - 1)) of
             Inl e \<Rightarrow> Inl e
           | Inr rj \<Rightarrow>
               q_valor_loop estado
                 (if ri = rj then conflictos + 1
                  else if \<bar>ri - rj\<bar> = \<bar>i - j\<bar> then conflictos + 1
                  else conflictos) ps))"

definition q_valor_objetivo :: "heap \<Rightarrow> nat \<Rightarrow> (error + int) \<times> heap" where
  "q_valor_objetivo h s =
     (case row_at h s of
        Inl e \<Rightarrow> (Inl e, h)
      | Inr estado \<Rightarrow> (q_valor_loop estado 0 col_pairs, h))"


section \<open>EightPuzzleProblem\<close>

definition GOAL :: "int list list" where
  "GOAL = [[0, 1, 2], [3, 4, 5], [6, 7, 8]]"

record puzzle_problem =
  p_initial :: nat
  pos_objetivo :: "int \<rightharpoonup> nat \<times> nat"

text \<open>The pairs \<open>(r, c)\<close> of \<open>for r in range(3): for c in range(3)\<close>, in loop order.\<close>

definition positions :: "(nat \<times> nat) list" where
  "positions = concat (map (\<lambda>r. map (\<lambda>c. (r, c)) [0..<3]) [0..<3])"

text \<open>The dictionary \<open>_pos_objetivo\<close> that \<open>__init__\<close> fills from \<open>GOAL\<close>.\<close>

definition init_pos_objetivo :: "int \<rightharpoonup> nat \<times> nat" where
  "init_pos_objetivo =
     fold (\<lambda>(r, c) m. m(GOAL ! r ! c \<mapsto> (r, c))) positions Map.empty"

text \<open>
  \<open>copy.deepcopy\<close> belongs to Python's standard library. On a list of lists of ints it
  builds a new outer list that holds a new copy of every row object; a row object that
  occurs twice in the outer list is copied once (the memo of \<open>deepcopy\<close>), so the copy
  shares rows where the original does.
\<close>

fun deepcopy_rows :: "heap \<Rightarrow> (nat \<times> nat) list \<Rightarrow> nat list \<Rightarrow> error + nat list \<times> heap" where
  "deepcopy_rows h memo [] = Inr ([], h)"
| "deepcopy_rows h memo (a # as) =
     (case map_of memo a of
        Some b \<Rightarrow>
          (case deepcopy_rows h memo as of
             Inl e \<Rightarrow> Inl e
           | Inr (bs, h') \<Rightarrow> Inr (b # bs, h'))
      | None \<Rightarrow>
          (case row_at h a of
             Inl e \<Rightarrow> Inl e
           | Inr row \<Rightarrow>
               (case new_row h row of
                  (b, h1) \<Rightarrow>
                    (case deepcopy_rows h1 ((a, b) # memo) as of
                       Inl e \<Rightarrow> Inl e
                     | Inr (bs, h') \<Rightarrow> Inr (b # bs, h')))))"

definition deepcopy :: "heap \<Rightarrow> nat \<Rightarrow> (error + nat) \<times> heap" where
  "deepcopy h s =
     (case grid_at h s of
        Inl e \<Rightarrow> (Inl e, h)
      | Inr outer \<Rightarrow>
          (case deepcopy_rows h [] outer of
             Inl e \<Rightarrow> (Inl e, h)
           | Inr (bs, h') \<Rightarrow> (case new_grid h' bs of (a, h'') \<Rightarrow> (Inr a, h''))))"

text \<open>\<open>estado[r][c]\<close> and \<open>estado[r][c] = v\<close> for \<open>r, c \<ge> 0\<close>.\<close>

definition cell :: "heap \<Rightarrow> nat \<Rightarrow> nat \<Rightarrow> nat \<Rightarrow> error + int" where
  "cell h s r c =
     (case grid_at h s of
        Inl e \<Rightarrow> Inl e
      | Inr outer \<Rightarrow>
          (case getitem outer r of
             Inl e \<Rightarrow> Inl e
           | Inr ra \<Rightarrow>
               (case row_at h ra of
                  Inl e \<Rightarrow> Inl e
                | Inr row \<Rightarrow> getitem row c)))"

definition setcell :: "heap \<Rightarrow> nat \<Rightarrow> nat \<Rightarrow> nat \<Rightarrow> int \<Rightarrow> (error + unit) \<times> heap" where
  "setcell h s r c v =
     (case grid_at h s of
        Inl e \<Rightarrow> (Inl e, h)
      | Inr outer \<Rightarrow>
          (case getitem outer r of
             Inl e \<Rightarrow> (Inl e, h)
           | Inr ra \<Rightarrow>
               (case row_at h ra of
                  Inl e \<Rightarrow> (Inl e, h)
                | Inr row \<Rightarrow>
                    if c < length row
                    then (Inr (), h\<lparr>rows := (rows h)[ra := row[c := v]]\<rparr>)
                    else (Inl (IndexError ''list assignment index out of range''), h))))"

text \<open>\<open>_buscar_cero\<close>: the first position in loop order that holds 0.\<close>

fun buscar_cero_loop :: "heap \<Rightarrow> nat \<Rightarrow> (nat \<times> nat) list \<Rightarrow> error + nat \<times> nat" where
  "buscar_cero_loop h s [] = Inl (ValueError ''Estado invalido: no contiene cero'')"
| "buscar_cero_loop h s ((r, c) # ps) =
     (case cell h s r c of
        Inl e \<Rightarrow> Inl e
      | Inr v \<Rightarrow> if v = 0 then Inr (r, c) else buscar_cero_loop h s ps)"

definition buscar_cero :: "heap \<Rightarrow> nat \<Rightarrow> error + nat \<times> nat" where
  "buscar_cero h s = buscar_cero_loop h s positions"

definition p_acciones :: "heap \<Rightarrow> nat \<Rightarrow> (error + string list) \<times> heap" where
  "p_acciones h s =
     (case buscar_cero h s of
        Inl e \<Rightarrow> (Inl e, h)
      | Inr (zr, zc) \<Rightarrow>
          (Inr ((if zr > 0 then [''UP''] else []) @
                (if zr < 2 then [''DOWN''] else []) @
                (if zc > 0 then [''LEFT''] else []) @
                (if zc < 2 then [''RIGHT''] else [])), h))"

text \<open>
  \<open>resultado\<close>: the deep copy comes first, then the search for the blank in \<open>estado\<close>,
  the \<open>if\<close>/\<open>elif\<close> chain on the action, the bounds check, and the tuple assignment,
  which reads both cells of \<open>new_state\<close> before it writes them.
\<close>

definition p_resultado :: "heap \<Rightarrow> nat \<Rightarrow> string \<Rightarrow> (error + nat) \<times> heap" where
  "p_resultado h s accion =
     (case deepcopy h s of
        (Inl e, h1) \<Rightarrow> (Inl e, h1)
      | (Inr new_state, h1) \<Rightarrow>
          (case buscar_cero h1 s of
             Inl e \<Rightarrow> (Inl e, h1)
           | Inr (zr, zc) \<Rightarrow>
               (case (if accion = ''UP'' then Inr (int zr - 1, int zc)
                      else if accion = ''DOWN'' then Inr (int zr + 1, int zc)
                      else if accion = ''LEFT'' then Inr (int zr, int zc - 1)
                      else if accion = ''RIGHT'' then Inr (int zr, int zc + 1)
                      else Inl (ValueError (''Accion invalida: '' @ accion))) of
                  Inl e \<Rightarrow> (Inl e, h1)
                | Inr (nr, nc) \<Rightarrow>
                    if \<not> (0 \<le> nr \<and> nr < 3 \<and> 0 \<le> nc \<and> nc < 3)
                    then (Inl (IndexError ''Movimiento fuera de limites''), h1)
                    else
                      (case cell h1 new_state (nat nr) (nat nc) of
                         Inl e \<Rightarrow> (Inl e, h1)
                       | Inr t1 \<Rightarrow>
                           (case cell h1 new_state zr zc of
                              Inl e \<Rightarrow> (Inl e, h1)
                            | Inr t2 \<Rightarrow>
                                (case setcell h1 new_state zr zc t1 of
                                   (Inl e, h2) \<Rightarrow> (Inl e, h2)
                                 | (Inr u, h2) \<Rightarrow>
                                     (case setcell h2 new_state (nat nr) (nat nc) t2 of
                                        (Inl e, h3) \<Rightarrow> (Inl e, h3)
                                      | (Inr u', h3) \<Rightarrow> (Inr new_state, h3))))))))"

text \<open>\<open>__contar_inversiones\<close> and \<open>__es_resoluble\<close>.\<close>

definition contar_inversiones :: "int list \<Rightarrow> int" where
  "contar_inversiones perm0 =
     (let perm = filter (\<lambda>x. x \<noteq> 0) perm0 in
        fold (\<lambda>i inv.
                fold (\<lambda>j inv. if perm ! i > perm ! j then inv + 1 else inv)
                  [i + 1..<length perm] inv)
          [0..<length perm] 0)"

definition es_resoluble :: "int list \<Rightarrow> bool" where
  "es_resoluble perm \<longleftrightarrow> contar_inversiones perm mod 2 = 0"

text \<open>
  \<open>random.shuffle\<close> belongs to Python's standard library. It is a parameter \<open>shuffle\<close>
  of the model: from a generator state and a list it gives the shuffled list and the next
  generator state. The loop \<open>while not self.__es_resoluble(perm): random.shuffle(perm)\<close>
  need not end; \<open>None\<close> stands for a run that never leaves it.
\<close>

partial_function (option) barajar_hasta_resoluble ::
  "('g \<Rightarrow> int list \<Rightarrow> int list \<times> 'g) \<Rightarrow> 'g \<Rightarrow> int list \<Rightarrow> (int list \<times> 'g) option" where
  "barajar_hasta_resoluble shuffle g perm =
     (if \<not> es_resoluble perm
      then barajar_hasta_resoluble shuffle (snd (shuffle g perm)) (fst (shuffle g perm))
      else Some (perm, g))"

declare barajar_hasta_resoluble.simps [code]

definition p_estado_aleatorio ::
  "('g \<Rightarrow> int list \<Rightarrow> int list \<times> 'g) \<Rightarrow> 'g \<Rightarrow> heap \<Rightarrow> ((nat \<times> heap) \<times> 'g) option" where
  "p_estado_aleatorio shuffle g h =
     (case shuffle g [0..8] of
        (perm1, g1) \<Rightarrow>
          (case barajar_hasta_resoluble shuffle g1 perm1 of
             None \<Rightarrow> None
           | Some (perm, g2) \<Rightarrow>
               (case new_row h (take 3 perm) of
                  (a0, h0) \<Rightarrow>
                    (case new_row h0 (take 3 (drop 3 perm)) of
                       (a1, h1) \<Rightarrow>
                         (case new_row h1 (take 3 (drop 6 perm)) of
                            (a2, h2) \<Rightarrow> Some (new_grid h2 [a0, a1, a2], g2))))))"

text \<open>
  \<open>__init__\<close>: a random state, or \<open>copy.deepcopy(initial)\<close>; then the goal dictionary.
\<close>

definition p_init ::
  "('g \<Rightarrow> int list \<Rightarrow> int list \<times> 'g) \<Rightarrow> 'g \<Rightarrow> heap \<Rightarrow> nat option
     \<Rightarrow> (((error + puzzle_problem) \<times> heap) \<times> 'g) option" where
  "p_init shuffle g h initial =
     (case initial of
        None \<Rightarrow>
          (case p_estado_aleatorio shuffle g h of
             None \<Rightarrow> None
           | Some ((a, h'), g') \<Rightarrow>
               Some ((Inr \<lparr>p_initial = a, pos_objetivo = init_pos_objetivo\<rparr>, h'), g'))
      | Some i \<Rightarrow>
          (case deepcopy h i of
             (Inl e, h') \<Rightarrow> Some ((Inl e, h'), g)
           | (Inr a, h') \<Rightarrow>
               Some ((Inr \<lparr>p_initial = a, pos_objetivo = init_pos_objetivo\<rparr>, h'), g)))"

definition p_estado_inicial :: "puzzle_problem \<Rightarrow> heap \<Rightarrow> (error + nat) \<times> heap" where
  "p_estado_inicial self h = deepcopy h (p_initial self)"

text \<open>
  \<open>valor_objetivo\<close>: \<open>tot\<close> is the variable \<open>total\<close> of the source;
  \<open>self._pos_objetivo[v]\<close> raises KeyError for a value that is not a key of the
  dictionary.
\<close>

fun p_valor_loop ::
  "(int \<rightharpoonup> nat \<times> nat) \<Rightarrow> heap \<Rightarrow> nat \<Rightarrow> int \<Rightarrow> (nat \<times> nat) list \<Rightarrow> error + int" where
  "p_valor_loop pos h s tot [] = Inr tot"
| "p_valor_loop pos h s tot ((r, c) # ps) =
     (case cell h s r c of
        Inl e \<Rightarrow> Inl e
      | Inr v \<Rightarrow>
          if v = 0 then p_valor_loop pos h s tot ps
          else
            (case pos v of
               None \<Rightarrow> Inl (KeyError v)
             | Some (gr, gc) \<Rightarrow>
                 p_valor_loop pos h s
                   (tot + (\<bar>int r - int gr\<bar> + \<bar>int c - int gc\<bar>)) ps))"

definition p_valor_objetivo :: "puzzle_problem \<Rightarrow> heap \<Rightarrow> nat \<Rightarrow> (error + int) \<times> heap" where
  "p_valor_objetivo self h s = (p_valor_loop (pos_objetivo self) h s 0 positions, h)"


section \<open>What the specification talks about\<close>

text \<open>
  The grid that a puzzle state denotes in a store: the contents of its rows, read
  through the outer list.
\<close>

definition grid_of :: "heap \<Rightarrow> nat \<Rightarrow> int list list option" where
  "grid_of h s =
     (if s < length (grids h) \<and> (\<forall>a\<in>set (grids h ! s). a < length (rows h))
      then Some (map (\<lambda>a. rows h ! a) (grids h ! s))
      else None)"

text \<open>A valid puzzle state: three rows of three cells that hold 0..8 once each.\<close>

definition valid_state :: "int list list \<Rightarrow> bool" where
  "valid_state g \<longleftrightarrow>
     length g = 3 \<and> (\<forall>row\<in>set g. length row = 3) \<and> mset (concat g) = mset [0..8]"

text \<open>The positions at which two grids differ.\<close>

definition diff_cells :: "int list list \<Rightarrow> int list list \<Rightarrow> (nat \<times> nat) list" where
  "diff_cells g g' = filter (\<lambda>(r, c). g ! r ! c \<noteq> g' ! r ! c) positions"

text \<open>
  An inversion of a sequence is a pair of positions \<open>i < j\<close> with the value at \<open>i\<close>
  greater than the value at \<open>j\<close>.
\<close>

definition inversions :: "int list \<Rightarrow> (nat \<times> nat) set" where
  "inversions xs = {(i, j). i < j \<and> j < length xs \<and> xs ! i > xs ! j}"

text \<open>
  The Manhattan distance between the cell \<open>(r, c)\<close> and the place of the value \<open>v\<close>
  in \<open>GOAL\<close>, and its sum over the non-zero cells of a grid.
\<close>

definition goal_distance :: "nat \<Rightarrow> nat \<Rightarrow> int \<Rightarrow> int" where
  "goal_distance r c v =
     (\<Sum>(gr, gc)\<leftarrow>positions.
        if GOAL ! gr ! gc = v then \<bar>int r - int gr\<bar> + \<bar>int c - int gc\<bar> else 0)"

definition manhattan_sum :: "int list list \<Rightarrow> int" where
  "manhattan_sum g =
     (\<Sum>(r, c)\<leftarrow>positions. if g ! r ! c = 0 then 0 else goal_distance r c (g ! r ! c))"

text \<open>
  Two queens, in columns \<open>i\<close> and \<open>j\<close> (counted from 1), attack each other when they
  share a row or a diagonal.
\<close>

definition attacks :: "int list \<Rightarrow> int \<Rightarrow> int \<Rightarrow> bool" where
  "attacks st i j \<longleftrightarrow>
     st ! nat (i - 1) = st ! nat (j - 1) \<or>
     \<bar>st ! nat (i - 1) - st ! nat (j - 1)\<bar> = \<bar>i - j\<bar>"

text \<open>
  The moves of a queens state that change it: column by column, the pairs
  \<open>(row, col)\<close> whose row is not the row of the queen of column \<open>col\<close>.
\<close>

definition moves_of :: "int list \<Rightarrow> (int \<times> int) list" where
  "moves_of st =
     concat (map (\<lambda>col. map (\<lambda>row. (row, col))
                          (filter (\<lambda>row. row \<noteq> st ! nat (col - 1)) [1..8])) [1..8])"


text \<open>
  The grid \<open>g\<close> with the values of the cells \<open>p\<close> and \<open>q\<close> exchanged, written as
  the tuple assignment of \<open>resultado\<close> does it.
\<close>

definition swap_cells :: "int list list \<Rightarrow> nat \<times> nat \<Rightarrow> nat \<times> nat \<Rightarrow> int list list" where
  "swap_cells g p q =
     (case p of (zr, zc) \<Rightarrow> case q of (nr, nc) \<Rightarrow>
        let t1 = g ! nr ! nc; t2 = g ! zr ! zc; g1 = g[zr := (g ! zr)[zc := t1]]
        in g1[nr := (g1 ! nr)[nc := t2]])"


section \<open>Eight queens: the objective value\<close>

lemma col_pairs_eval:
  "col_pairs =
     [(1, 2), (1, 3), (1, 4), (1, 5), (1, 6), (1, 7), (1, 8),
      (2, 3), (2, 4), (2, 5), (2, 6), (2, 7), (2, 8),
      (3, 4), (3, 5), (3, 6), (3, 7), (3, 8),
      (4, 5), (4, 6), (4, 7), (4, 8),
      (5, 6), (5, 7), (5, 8),
      (6, 7), (6, 8),
      (7, 8)]"
  by (simp add: col_pairs_def N_def upto_rec1)

lemma set_col_pairs: "set col_pairs = {(i, j). 1 \<le> i \<and> i < j \<and> j \<le> 8}"
  by (fastforce simp: col_pairs_def N_def)

lemma distinct_col_pairs: "distinct col_pairs"
  by (simp add: col_pairs_eval)

text \<open>The loop adds one for every pair of the list that attacks.\<close>

lemma q_valor_loop_count:
  assumes "\<forall>(i, j)\<in>set ps. 1 \<le> i \<and> i \<le> int (length st) \<and> 1 \<le> j \<and> j \<le> int (length st)"
  shows "q_valor_loop st c ps = Inr (c + int (length (filter (\<lambda>(i, j). attacks st i j) ps)))"
  using assms
proof (induction ps arbitrary: c)
  case Nil
  then show ?case by simp
next
  case (Cons p ps)
  obtain i j where p: "p = (i, j)" by (cases p)
  from Cons.prems p have r: "nat (i - 1) < length st" "nat (j - 1) < length st"
    by auto
  from Cons.prems
  have "\<forall>(i, j)\<in>set ps. 1 \<le> i \<and> i \<le> int (length st) \<and> 1 \<le> j \<and> j \<le> int (length st)"
    by simp
  from Cons.IH [OF this] show ?case
    using r by (auto simp: p getitem_def attacks_def)
qed

lemma attacking_pairs_card:
  "length (filter (\<lambda>(i, j). attacks st i j) col_pairs) =
     card {(i, j). 1 \<le> i \<and> i < j \<and> j \<le> 8 \<and> attacks st i j}"
proof -
  have "length (filter (\<lambda>(i, j). attacks st i j) col_pairs) =
          card ({p. case p of (i, j) \<Rightarrow> attacks st i j} \<inter> set col_pairs)"
    using distinct_col_pairs by (rule distinct_length_filter)
  also have "{p. case p of (i, j) \<Rightarrow> attacks st i j} \<inter> set col_pairs =
               {(i, j). 1 \<le> i \<and> i < j \<and> j \<le> 8 \<and> attacks st i j}"
    by (auto simp: set_col_pairs)
  finally show ?thesis .
qed

lemma q_valor_objetivo_card:
  assumes "row_at h s = Inr st" and "length st = 8"
  shows "q_valor_objetivo h s =
           (Inr (int (card {(i, j). 1 \<le> i \<and> i < j \<and> j \<le> 8 \<and> attacks st i j})), h)"
proof -
  have "\<forall>(i, j)\<in>set col_pairs. 1 \<le> i \<and> i \<le> int (length st) \<and> 1 \<le> j \<and> j \<le> int (length st)"
    using assms(2) by (auto simp: set_col_pairs)
  from q_valor_loop_count [OF this, of 0] show ?thesis
    using assms(1) by (simp add: q_valor_objetivo_def attacking_pairs_card)
qed

lemma q_valor_objetivo_same_row:
  assumes "row_at h s = Inr [1, 1, 1, 1, 1, 1, 1, 1]"
  shows "q_valor_objetivo h s = (Inr 28, h)"
  using assms by (simp add: q_valor_objetivo_def col_pairs_eval getitem_def)

text \<open>
  Claim C4. On a state of length 8, \<open>valor_objetivo\<close> returns the number of pairs of
  columns \<open>i < j\<close> (columns counted from 1) whose queens share a row or satisfy
  \<open>|row_i - row_j| = |i - j|\<close>, and leaves the store as it was; on
  \<open>[1,1,1,1,1,1,1,1]\<close> it returns 28.
\<close>

theorem q_valor_objetivo_counts_attacking_pairs:
  assumes "row_at h s = Inr st" and "length st = 8"
  shows "q_valor_objetivo h s =
           (Inr (int (card {(i, j). 1 \<le> i \<and> i < j \<and> j \<le> 8 \<and> attacks st i j})), h) \<and>
         (st = [1, 1, 1, 1, 1, 1, 1, 1] \<longrightarrow> q_valor_objetivo h s = (Inr 28, h))"
  using assms q_valor_objetivo_card q_valor_objetivo_same_row by blast

theorem q_valor_objetivo_counts_attacking_pairs_witness:
  "row_at \<lparr>rows = [[1, 1, 1, 1, 1, 1, 1, 1]], grids = []\<rparr> 0 = Inr [1, 1, 1, 1, 1, 1, 1, 1] \<and>
   length [1, 1, 1, 1, 1, 1, 1, 1 :: int] = 8 \<and>
   card {(i, j). 1 \<le> i \<and> i < j \<and> j \<le> 8 \<and> attacks [1, 1, 1, 1, 1, 1, 1, 1] i j} = 28 \<and>
   q_valor_objetivo \<lparr>rows = [[1, 1, 1, 1, 1, 1, 1, 1]], grids = []\<rparr> 0 =
     (Inr 28, \<lparr>rows = [[1, 1, 1, 1, 1, 1, 1, 1]], grids = []\<rparr>)"
proof -
  have r: "row_at \<lparr>rows = [[1, 1, 1, 1, 1, 1, 1, 1]], grids = []\<rparr> 0 = Inr [1, 1, 1, 1, 1, 1, 1, 1]"
    by (simp add: row_at_def)
  have l: "length [1, 1, 1, 1, 1, 1, 1, 1 :: int] = 8" by simp
  from q_valor_objetivo_counts_attacking_pairs [OF r l]
  have a: "q_valor_objetivo \<lparr>rows = [[1, 1, 1, 1, 1, 1, 1, 1]], grids = []\<rparr> 0 =
             (Inr (int (card {(i, j). 1 \<le> i \<and> i < j \<and> j \<le> 8 \<and>
                attacks [1, 1, 1, 1, 1, 1, 1, 1] i j})),
              \<lparr>rows = [[1, 1, 1, 1, 1, 1, 1, 1]], grids = []\<rparr>)"
    and b: "q_valor_objetivo \<lparr>rows = [[1, 1, 1, 1, 1, 1, 1, 1]], grids = []\<rparr> 0 =
             (Inr 28, \<lparr>rows = [[1, 1, 1, 1, 1, 1, 1, 1]], grids = []\<rparr>)"
    by blast+
  from a b
  have "(Inr (int (card {(i, j). 1 \<le> i \<and> i < j \<and> j \<le> 8 \<and>
            attacks [1, 1, 1, 1, 1, 1, 1, 1] i j})) :: error + int,
          \<lparr>rows = [[1, 1, 1, 1, 1, 1, 1, 1]], grids = []\<rparr>) =
        (Inr 28, \<lparr>rows = [[1, 1, 1, 1, 1, 1, 1, 1]], grids = []\<rparr>)"
    by (rule trans [OF sym])
  then have "card {(i, j). 1 \<le> i \<and> i < j \<and> j \<le> 8 \<and> attacks [1, 1, 1, 1, 1, 1, 1, 1] i j} = 28"
    by simp
  with r l b show ?thesis by simp
qed

text \<open>
  Claim C5 says that \<open>valor_objetivo\<close> returns 0 on \<open>[1,3,5,7,2,4,6,8]\<close>. The queens of
  columns 1 and 8 stand in rows 1 and 8, on one diagonal, and the function counts that
  pair: it returns 1.
\<close>

theorem q_valor_objetivo_13572468_not_zero:
  "q_valor_objetivo \<lparr>rows = [[1, 3, 5, 7, 2, 4, 6, 8]], grids = []\<rparr> 0 \<noteq>
     (Inr 0, \<lparr>rows = [[1, 3, 5, 7, 2, 4, 6, 8]], grids = []\<rparr>)"
  by (simp add: q_valor_objetivo_def row_at_def col_pairs_eval getitem_def)

text \<open>
  Claim C5, amended: \<open>valor_objetivo\<close> applied to \<open>[1,3,5,7,2,4,6,8]\<close> returns 1.
\<close>

theorem q_valor_objetivo_13572468:
  assumes "row_at h s = Inr [1, 3, 5, 7, 2, 4, 6, 8]"
  shows "q_valor_objetivo h s = (Inr 1, h)"
  using assms by (simp add: q_valor_objetivo_def col_pairs_eval getitem_def)

theorem q_valor_objetivo_13572468_witness:
  "row_at \<lparr>rows = [[1, 3, 5, 7, 2, 4, 6, 8]], grids = []\<rparr> 0 = Inr [1, 3, 5, 7, 2, 4, 6, 8] \<and>
   q_valor_objetivo \<lparr>rows = [[1, 3, 5, 7, 2, 4, 6, 8]], grids = []\<rparr> 0 =
     (Inr 1, \<lparr>rows = [[1, 3, 5, 7, 2, 4, 6, 8]], grids = []\<rparr>)"
proof -
  have r: "row_at \<lparr>rows = [[1, 3, 5, 7, 2, 4, 6, 8]], grids = []\<rparr> 0 = Inr [1, 3, 5, 7, 2, 4, 6, 8]"
    by (simp add: row_at_def)
  from r q_valor_objetivo_13572468 [OF r] show ?thesis by blast
qed

section \<open>Eight queens: actions, transition and construction\<close>

lemma q_acciones_loop_filter:
  assumes "\<forall>(col, row)\<in>set ps. 1 \<le> col \<and> col \<le> int (length st)"
  shows "q_acciones_loop st acts ps =
           Inr (acts @ map (\<lambda>(col, row). (row, col))
                         (filter (\<lambda>(col, row). st ! nat (col - 1) \<noteq> row) ps))"
  using assms
proof (induction ps arbitrary: acts)
  case Nil
  then show ?case by simp
next
  case (Cons p ps)
  obtain col row where p: "p = (col, row)" by (cases p)
  from Cons.prems p have r: "nat (col - 1) < length st" by auto
  from Cons.prems have "\<forall>(col, row)\<in>set ps. 1 \<le> col \<and> col \<le> int (length st)"
    by simp
  from Cons.IH [OF this] show ?case
    using r by (simp add: p getitem_def)
qed


lemma filter_col_row_pairs:
  "map (\<lambda>(col, row). (row, col))
     (filter (\<lambda>(col, row). st ! nat (col - 1) \<noteq> row) col_row_pairs) = moves_of st"
proof -
  have "\<And>col. map (\<lambda>(col, row). (row, col))
          (filter (\<lambda>(col, row). st ! nat (col - 1) \<noteq> row) (map (\<lambda>row. (col, row)) [1..8])) =
        map (\<lambda>row. (row, col)) (filter (\<lambda>row. row \<noteq> st ! nat (col - 1)) [1..8])"
    by (simp add: filter_map comp_def eq_commute)
  then show ?thesis
    unfolding col_row_pairs_def moves_of_def N_def
    by (simp add: filter_concat map_concat comp_def)
qed

lemma length_moves_col:
  assumes "1 \<le> v" and "v \<le> 8"
  shows "length (filter (\<lambda>row. row \<noteq> v) [1..8]) = 7"
proof -
  from assms have "v = 1 \<or> v = 2 \<or> v = 3 \<or> v = 4 \<or> v = 5 \<or> v = 6 \<or> v = 7 \<or> v = 8"
    by arith
  then show ?thesis by (auto simp: upto_rec1)
qed

lemma length_moves_of:
  assumes "length st = 8" and "\<forall>v\<in>set st. 1 \<le> v \<and> v \<le> 8"
  shows "length (moves_of st) = 56"
proof -
  have "\<And>col. col \<in> set [1..8] \<Longrightarrow>
          length (filter (\<lambda>row. row \<noteq> st ! nat (col - 1)) [1..8]) = 7"
  proof -
    fix col :: int assume "col \<in> set [1..8]"
    then have "nat (col - 1) < length st" using assms(1) by auto
    then have "st ! nat (col - 1) \<in> set st" by simp
    with assms(2) show "length (filter (\<lambda>row. row \<noteq> st ! nat (col - 1)) [1..8]) = 7"
      by (simp add: length_moves_col)
  qed
  then have "map (\<lambda>col. length (map (\<lambda>row. (row, col))
                 (filter (\<lambda>row. row \<noteq> st ! nat (col - 1)) [1..8]))) [1..8] =
             map (\<lambda>col. 7) [1..8]"
    by (intro map_cong) simp_all
  then show ?thesis
    by (simp add: moves_of_def length_concat comp_def upto_rec1)
qed

lemma set_moves_of:
  "set (moves_of st) =
     {(row, col). 1 \<le> col \<and> col \<le> 8 \<and> 1 \<le> row \<and> row \<le> 8 \<and> row \<noteq> st ! nat (col - 1)}"
  by (fastforce simp: moves_of_def)

lemma distinct_moves_of: "distinct (moves_of st)"
proof -
  have "moves_of st =
          filter (\<lambda>(row, col). row \<noteq> st ! nat (col - 1))
            (concat (map (\<lambda>col. map (\<lambda>row. (row, col)) [1..8]) [1..8]))"
    by (simp add: moves_of_def filter_concat filter_map comp_def)
  moreover have "distinct (concat (map (\<lambda>col. map (\<lambda>row. (row, col)) [1..8]) [1..8::int]))"
    by (simp add: upto_rec1)
  ultimately show ?thesis by simp
qed

lemma q_acciones_moves:
  assumes "row_at h s = Inr st" and "length st = 8"
  shows "q_acciones h s = (Inr (moves_of st), h)"
proof -
  have "\<forall>(col, row)\<in>set col_row_pairs. 1 \<le> col \<and> col \<le> int (length st)"
    using assms(2) by (auto simp: col_row_pairs_def N_def)
  from q_acciones_loop_filter [OF this, of "[]"] show ?thesis
    using assms(1) by (simp add: q_acciones_def filter_col_row_pairs)
qed


lemma card_moves_col:
  assumes "1 \<le> col" and "col \<le> 8" and "length st = 8" and "\<forall>v\<in>set st. 1 \<le> v \<and> v \<le> 8"
  shows "card {row. (row, col) \<in> set (moves_of st)} = 7"
proof -
  have "nat (col - 1) < length st" using assms by auto
  then have "st ! nat (col - 1) \<in> set st" by simp
  with assms(4) have v: "1 \<le> st ! nat (col - 1)" "st ! nat (col - 1) \<le> 8" by auto
  have e: "{row. (row, col) \<in> set (moves_of st)} =
          set (filter (\<lambda>row. row \<noteq> st ! nat (col - 1)) [1..8])"
    using assms(1,2) by (auto simp: set_moves_of)
  have "distinct (filter (\<lambda>row. row \<noteq> st ! nat (col - 1)) [1..8])"
    by simp
  then have "card (set (filter (\<lambda>row. row \<noteq> st ! nat (col - 1)) [1..8])) =
               length (filter (\<lambda>row. row \<noteq> st ! nat (col - 1)) [1..8])"
    by (rule distinct_card)
  also have "\<dots> = 7" using v by (rule length_moves_col)
  finally show ?thesis by (simp only: e)
qed

text \<open>
  Claim C6. On a state of length 8 with all values in 1..8, \<open>acciones\<close> returns 56
  pairs, no pair twice: the pairs \<open>(row, col)\<close> with \<open>col\<close> and \<open>row\<close> in 1..8 and
  \<open>row\<close> different from the row of the queen of column \<open>col\<close>, seven for every column,
  column by column. The store is left as it was.
\<close>

theorem q_acciones_fifty_six:
  assumes "row_at h s = Inr st" and "length st = 8" and "\<forall>v\<in>set st. 1 \<le> v \<and> v \<le> 8"
  shows "q_acciones h s = (Inr (moves_of st), h) \<and>
         length (moves_of st) = 56 \<and>
         distinct (moves_of st) \<and>
         set (moves_of st) =
           {(row, col). 1 \<le> col \<and> col \<le> 8 \<and> 1 \<le> row \<and> row \<le> 8 \<and> row \<noteq> st ! nat (col - 1)} \<and>
         (\<forall>col\<in>{1..8}. card {row. (row, col) \<in> set (moves_of st)} = 7)"
proof (intro conjI ballI)
  show "q_acciones h s = (Inr (moves_of st), h)"
    using assms(1,2) by (rule q_acciones_moves)
  show "length (moves_of st) = 56"
    using assms(2,3) by (rule length_moves_of)
  show "distinct (moves_of st)"
    by (rule distinct_moves_of)
  show "set (moves_of st) =
          {(row, col). 1 \<le> col \<and> col \<le> 8 \<and> 1 \<le> row \<and> row \<le> 8 \<and> row \<noteq> st ! nat (col - 1)}"
    by (rule set_moves_of)
next
  fix col :: int assume "col \<in> {1..8}"
  then have "1 \<le> col" "col \<le> 8" by simp_all
  then show "card {row. (row, col) \<in> set (moves_of st)} = 7"
    using assms(2,3) by (rule card_moves_col)
qed

theorem q_acciones_fifty_six_witness:
  "row_at \<lparr>rows = [[1, 3, 5, 7, 2, 4, 6, 8]], grids = []\<rparr> 0 = Inr [1, 3, 5, 7, 2, 4, 6, 8] \<and>
   length [1, 3, 5, 7, 2, 4, 6, 8 :: int] = 8 \<and>
   list_all (\<lambda>v. 1 \<le> v \<and> v \<le> 8) [1, 3, 5, 7, 2, 4, 6, 8 :: int] \<and>
   (3 :: int) \<in> {1..8} \<and>
   length (moves_of [1, 3, 5, 7, 2, 4, 6, 8]) = 56 \<and>
   card {row. (row, 3) \<in> set (moves_of [1, 3, 5, 7, 2, 4, 6, 8])} = 7 \<and>
   fst (q_acciones \<lparr>rows = [[1, 3, 5, 7, 2, 4, 6, 8]], grids = []\<rparr> 0) =
     Inr (moves_of [1, 3, 5, 7, 2, 4, 6, 8])"
proof -
  have r: "row_at \<lparr>rows = [[1, 3, 5, 7, 2, 4, 6, 8]], grids = []\<rparr> 0 = Inr [1, 3, 5, 7, 2, 4, 6, 8]"
    by (simp add: row_at_def)
  have l: "length [1, 3, 5, 7, 2, 4, 6, 8 :: int] = 8" by simp
  have v: "\<forall>v\<in>set [1, 3, 5, 7, 2, 4, 6, 8 :: int]. 1 \<le> v \<and> v \<le> 8" by simp
  have c: "(3 :: int) \<in> {1..8}" by simp
  note t = q_acciones_fifty_six [OF r l v]
  from t have q: "fst (q_acciones \<lparr>rows = [[1, 3, 5, 7, 2, 4, 6, 8]], grids = []\<rparr> 0) =
      Inr (moves_of [1, 3, 5, 7, 2, 4, 6, 8])"
    by (simp only: fst_conv)
  from t have n: "length (moves_of [1, 3, 5, 7, 2, 4, 6, 8]) = 56"
    by (rule conjunct2 [THEN conjunct1])
  from t have "\<forall>col\<in>{1..8}. card {row. (row, col) \<in> set (moves_of [1, 3, 5, 7, 2, 4, 6, 8])} = 7"
    by (rule conjunct2 [THEN conjunct2, THEN conjunct2, THEN conjunct2])
  from this c have k: "card {row. (row, 3) \<in> set (moves_of [1, 3, 5, 7, 2, 4, 6, 8])} = 7"
    by (rule bspec)
  have v': "list_all (\<lambda>v. 1 \<le> v \<and> v \<le> 8) [1, 3, 5, 7, 2, 4, 6, 8 :: int]" by simp
  from r l v' c n k q show ?thesis by (intro conjI)
qed

text \<open>
  Claim C10. For a state of length 8 and a pair \<open>(row, col)\<close> in range whose row is
  the row the queen of that column already has, \<open>acciones\<close> does not list the pair, and
  \<open>resultado\<close> raises nothing: it returns a new object, at an address the store did not
  have, with the contents of the input, and mutates nothing that existed.
\<close>

theorem q_resultado_unlisted_action:
  assumes "row_at h s = Inr st" and "length st = 8"
    and "1 \<le> row" and "row \<le> 8" and "1 \<le> col" and "col \<le> 8"
    and "st ! nat (col - 1) = row"
  shows "\<exists>s' h' acts.
           q_resultado h s (row, col) = (Inr s', h') \<and>
           row_at h' s' = Inr st \<and>
           row_at h s' = Inl NoSuchObject \<and>
           s' \<noteq> s \<and>
           preserved h h' \<and>
           q_acciones h s = (Inr acts, h) \<and>
           (row, col) \<notin> set acts"
proof -
  from assms(1) have s: "s < length (rows h)" "rows h ! s = st"
    by (auto simp: row_at_def split: if_splits)
  have c: "nat (col - 1) < length st" using assms by auto
  have u: "st[nat (col - 1) := row] = st"
    using assms(7) by (metis list_update_id)
  have "q_resultado h s (row, col) = (Inr (length (rows h)), h\<lparr>rows := rows h @ [st]\<rparr>)"
    using assms c u by (simp add: q_resultado_def N_def new_row_def)
  moreover have "row_at (h\<lparr>rows := rows h @ [st]\<rparr>) (length (rows h)) = Inr st"
    by (simp add: row_at_def)
  moreover have "row_at h (length (rows h)) = Inl NoSuchObject"
    by (simp add: row_at_def)
  moreover have "length (rows h) \<noteq> s" using s by simp
  moreover have "preserved h (h\<lparr>rows := rows h @ [st]\<rparr>)"
    by (simp add: preserved_def)
  moreover have "q_acciones h s = (Inr (moves_of st), h)"
    using assms(1,2) by (rule q_acciones_moves)
  moreover have "(row, col) \<notin> set (moves_of st)"
    using assms(7) by (simp add: set_moves_of)
  ultimately show ?thesis by blast
qed

theorem q_resultado_unlisted_action_witness:
  "row_at \<lparr>rows = [[1, 3, 5, 7, 2, 4, 6, 8]], grids = []\<rparr> 0 = Inr [1, 3, 5, 7, 2, 4, 6, 8] \<and>
   length [1, 3, 5, 7, 2, 4, 6, 8 :: int] = 8 \<and>
   (1 :: int) \<le> 5 \<and> (5 :: int) \<le> 8 \<and> (1 :: int) \<le> 3 \<and> (3 :: int) \<le> 8 \<and>
   [1, 3, 5, 7, 2, 4, 6, 8 :: int] ! nat (3 - 1) = 5 \<and>
   (\<exists>s' h' acts.
      q_resultado \<lparr>rows = [[1, 3, 5, 7, 2, 4, 6, 8]], grids = []\<rparr> 0 (5, 3) = (Inr s', h') \<and>
      row_at h' s' = Inr [1, 3, 5, 7, 2, 4, 6, 8] \<and>
      s' \<noteq> 0 \<and>
      q_acciones \<lparr>rows = [[1, 3, 5, 7, 2, 4, 6, 8]], grids = []\<rparr> 0 =
        (Inr acts, \<lparr>rows = [[1, 3, 5, 7, 2, 4, 6, 8]], grids = []\<rparr>) \<and>
      (5, 3) \<notin> set acts)"
proof -
  have r: "row_at \<lparr>rows = [[1, 3, 5, 7, 2, 4, 6, 8]], grids = []\<rparr> 0 = Inr [1, 3, 5, 7, 2, 4, 6, 8]"
    by (simp add: row_at_def)
  have l: "length [1, 3, 5, 7, 2, 4, 6, 8 :: int] = 8" by simp
  have a: "(1 :: int) \<le> 5" "(5 :: int) \<le> 8" "(1 :: int) \<le> 3" "(3 :: int) \<le> 8" by simp_all
  have e: "[1, 3, 5, 7, 2, 4, 6, 8 :: int] ! nat (3 - 1) = 5" by (simp add: nth_Cons')
  from q_resultado_unlisted_action [OF r l a e] r l a e show ?thesis by blast
qed

text \<open>
  Claim C9. With an initial list whose length is not 8 the constructor raises the
  ValueError of the length check, returns no instance and leaves the store as it was.
  With a list of length 8 it returns an instance whose \<open>_initial\<close> is a new object with the
  same contents: a later write to either list does not change the other.
\<close>

theorem q_init_length_check:
  assumes "row_at h i = Inr xs"
  shows "(length xs \<noteq> 8 \<longrightarrow>
            q_init randint g h (Some i) =
              ((Inl (ValueError ''Estado inicial debe tener longitud 8''), h), g)) \<and>
         (length xs = 8 \<longrightarrow>
            (\<exists>self h'.
               q_init randint g h (Some i) = ((Inr self, h'), g) \<and>
               row_at h' (q_initial self) = Inr xs \<and>
               row_at h (q_initial self) = Inl NoSuchObject \<and>
               q_initial self \<noteq> i \<and>
               preserved h h' \<and>
               (\<forall>ys. row_at (h'\<lparr>rows := (rows h')[i := ys]\<rparr>) (q_initial self) = Inr xs) \<and>
               (\<forall>ys. row_at (h'\<lparr>rows := (rows h')[q_initial self := ys]\<rparr>) i = Inr xs)))"
proof (intro conjI impI)
  assume "length xs \<noteq> 8"
  with assms show "q_init randint g h (Some i) =
      ((Inl (ValueError ''Estado inicial debe tener longitud 8''), h), g)"
    by (simp add: q_init_def N_def)
next
  assume l: "length xs = 8"
  from assms have i: "i < length (rows h)" "rows h ! i = xs"
    by (auto simp: row_at_def split: if_splits)
  let ?self = "\<lparr>q_initial = length (rows h)\<rparr>"
  let ?h' = "h\<lparr>rows := rows h @ [xs]\<rparr>"
  have "q_init randint g h (Some i) = ((Inr ?self, ?h'), g)"
    using assms l by (simp add: q_init_def N_def new_row_def)
  moreover have "row_at ?h' (q_initial ?self) = Inr xs"
    by (simp add: row_at_def)
  moreover have "row_at h (q_initial ?self) = Inl NoSuchObject"
    by (simp add: row_at_def)
  moreover have "q_initial ?self \<noteq> i" using i by simp
  moreover have "preserved h ?h'" by (simp add: preserved_def)
  moreover have "\<forall>ys. row_at (?h'\<lparr>rows := (rows ?h')[i := ys]\<rparr>) (q_initial ?self) = Inr xs"
    using i by (simp add: row_at_def nth_list_update)
  moreover have "\<forall>ys. row_at (?h'\<lparr>rows := (rows ?h')[q_initial ?self := ys]\<rparr>) i = Inr xs"
    using i by (simp add: row_at_def nth_list_update nth_append)
  ultimately show "\<exists>self h'.
               q_init randint g h (Some i) = ((Inr self, h'), g) \<and>
               row_at h' (q_initial self) = Inr xs \<and>
               row_at h (q_initial self) = Inl NoSuchObject \<and>
               q_initial self \<noteq> i \<and>
               preserved h h' \<and>
               (\<forall>ys. row_at (h'\<lparr>rows := (rows h')[i := ys]\<rparr>) (q_initial self) = Inr xs) \<and>
               (\<forall>ys. row_at (h'\<lparr>rows := (rows h')[q_initial self := ys]\<rparr>) i = Inr xs)"
    by blast
qed

theorem q_init_length_check_witness:
  "row_at \<lparr>rows = [[1, 2, 3, 4, 5, 6, 7]], grids = []\<rparr> 0 = Inr [1, 2, 3, 4, 5, 6, 7] \<and>
   length [1, 2, 3, 4, 5, 6, 7 :: int] \<noteq> 8 \<and>
   q_init (\<lambda>g lo hi. (lo, g :: nat)) 0 \<lparr>rows = [[1, 2, 3, 4, 5, 6, 7]], grids = []\<rparr> (Some 0) =
     ((Inl (ValueError ''Estado inicial debe tener longitud 8''),
       \<lparr>rows = [[1, 2, 3, 4, 5, 6, 7]], grids = []\<rparr>), 0) \<and>
   row_at \<lparr>rows = [[1, 3, 5, 7, 2, 4, 6, 8]], grids = []\<rparr> 0 = Inr [1, 3, 5, 7, 2, 4, 6, 8] \<and>
   length [1, 3, 5, 7, 2, 4, 6, 8 :: int] = 8 \<and>
   (\<exists>self h'.
      q_init (\<lambda>g lo hi. (lo, g :: nat)) 0 \<lparr>rows = [[1, 3, 5, 7, 2, 4, 6, 8]], grids = []\<rparr> (Some 0) =
        ((Inr self, h'), 0) \<and>
      row_at h' (q_initial self) = Inr [1, 3, 5, 7, 2, 4, 6, 8] \<and>
      q_initial self \<noteq> 0)"
proof -
  have r7: "row_at \<lparr>rows = [[1, 2, 3, 4, 5, 6, 7]], grids = []\<rparr> 0 = Inr [1, 2, 3, 4, 5, 6, 7]"
    by (simp add: row_at_def)
  have l7: "length [1, 2, 3, 4, 5, 6, 7 :: int] \<noteq> 8" by simp
  have r8: "row_at \<lparr>rows = [[1, 3, 5, 7, 2, 4, 6, 8]], grids = []\<rparr> 0 = Inr [1, 3, 5, 7, 2, 4, 6, 8]"
    by (simp add: row_at_def)
  have l8: "length [1, 3, 5, 7, 2, 4, 6, 8 :: int] = 8" by simp
  from q_init_length_check [OF r7, of "\<lambda>g lo hi. (lo, g :: nat)" 0] l7
  have a: "q_init (\<lambda>g lo hi. (lo, g :: nat)) 0 \<lparr>rows = [[1, 2, 3, 4, 5, 6, 7]], grids = []\<rparr> (Some 0) =
     ((Inl (ValueError ''Estado inicial debe tener longitud 8''),
       \<lparr>rows = [[1, 2, 3, 4, 5, 6, 7]], grids = []\<rparr>), 0)"
    by blast
  from q_init_length_check [OF r8, of "\<lambda>g lo hi. (lo, g :: nat)" 0] l8
  have b: "\<exists>self h'.
      q_init (\<lambda>g lo hi. (lo, g :: nat)) 0 \<lparr>rows = [[1, 3, 5, 7, 2, 4, 6, 8]], grids = []\<rparr> (Some 0) =
        ((Inr self, h'), 0) \<and>
      row_at h' (q_initial self) = Inr [1, 3, 5, 7, 2, 4, 6, 8] \<and>
      q_initial self \<noteq> 0"
    by blast
  from r7 l7 a r8 l8 b show ?thesis by blast
qed

section \<open>Eight puzzle: the blank, the actions and the transition\<close>

lemma positions_eval:
  "positions = [(0, 0), (0, 1), (0, 2), (1, 0), (1, 1), (1, 2), (2, 0), (2, 1), (2, 2)]"
  by (simp add: positions_def upt_rec)

lemma valid_state_shape:
  assumes "valid_state g"
  obtains a b c d e f x y z where "g = [[a, b, c], [d, e, f], [x, y, z]]"
proof -
  from assms have l: "length g = 3" and r: "\<forall>row\<in>set g. length row = 3"
    by (simp_all add: valid_state_def)
  from l obtain r0 r1 r2 where g: "g = [r0, r1, r2]"
    by (auto simp: numeral_3_eq_3 length_Suc_conv)
  have three: "\<And>row :: int list. length row = 3 \<Longrightarrow> \<exists>a b c. row = [a, b, c]"
    by (auto simp: numeral_3_eq_3 length_Suc_conv)
  from r g have "length r0 = 3" "length r1 = 3" "length r2 = 3" by simp_all
  then obtain a b c d e f x y z
    where "r0 = [a, b, c]" "r1 = [d, e, f]" "r2 = [x, y, z]"
    using three by metis
  with g that show thesis by simp
qed

lemma grid_of_cell:
  assumes "grid_of h s = Some g" and "r < length g" and "c < length (g ! r)"
  shows "cell h s r c = Inr (g ! r ! c)"
proof -
  from assms(1) have s: "s < length (grids h)"
    and a: "\<forall>a\<in>set (grids h ! s). a < length (rows h)"
    and g: "g = map (\<lambda>a. rows h ! a) (grids h ! s)"
    by (auto simp: grid_of_def split: if_splits)
  from g assms(2) have r: "r < length (grids h ! s)" by simp
  with a have "grids h ! s ! r < length (rows h)" by simp
  with s r g assms(3) show ?thesis
    by (simp add: cell_def grid_at_def getitem_def row_at_def)
qed

lemma valid_state_perm:
  assumes "valid_state [[a, b, c], [d, e, f], [x, y, z]]"
  shows "mset [a, b, c, d, e, f, x, y, z] = mset [0, 1, 2, 3, 4, 5, 6, 7, 8]"
  using assms by (simp add: valid_state_def upto_rec1)

lemma valid_state_distinct:
  assumes "valid_state [[a, b, c], [d, e, f], [x, y, z]]"
  shows "distinct [a, b, c, d, e, f, x, y, z]"
proof -
  have "distinct [0, 1, 2, 3, 4, 5, 6, 7, 8 :: int]" by simp
  with valid_state_perm [OF assms] show ?thesis
    by (metis mset_eq_imp_distinct_iff)
qed

lemma valid_state_zero:
  assumes "valid_state [[a, b, c], [d, e, f], [x, y, z]]"
  shows "0 \<in> set [a, b, c, d, e, f, x, y, z]"
proof -
  have "0 \<in> set [0, 1, 2, 3, 4, 5, 6, 7, 8 :: int]" by simp
  with valid_state_perm [OF assms] show ?thesis
    by (metis mset_eq_setD)
qed

lemma less_3_cases: "(n::nat) < 3 \<longleftrightarrow> n = 0 \<or> n = 1 \<or> n = 2"
  by arith

lemma grid_of_cells9:
  assumes "grid_of h s = Some [[a, b, c], [d, e, f], [x, y, z]]"
  shows "cell h s 0 0 = Inr a" "cell h s 0 (Suc 0) = Inr b" "cell h s 0 2 = Inr c"
    "cell h s (Suc 0) 0 = Inr d" "cell h s (Suc 0) (Suc 0) = Inr e" "cell h s (Suc 0) 2 = Inr f"
    "cell h s 2 0 = Inr x" "cell h s 2 (Suc 0) = Inr y" "cell h s 2 2 = Inr z"
  using grid_of_cell [OF assms, of 0 0] grid_of_cell [OF assms, of 0 1]
    grid_of_cell [OF assms, of 0 2] grid_of_cell [OF assms, of 1 0]
    grid_of_cell [OF assms, of 1 1] grid_of_cell [OF assms, of 1 2]
    grid_of_cell [OF assms, of 2 0] grid_of_cell [OF assms, of 2 1]
    grid_of_cell [OF assms, of 2 2]
  by simp_all

lemma buscar_cero_valid:
  assumes "grid_of h s = Some g" and "valid_state g"
  shows "\<exists>zr zc. buscar_cero h s = Inr (zr, zc) \<and> zr < 3 \<and> zc < 3 \<and> g ! zr ! zc = 0 \<and>
           (\<forall>r<3. \<forall>c<3. g ! r ! c = 0 \<longrightarrow> r = zr \<and> c = zc)"
proof -
  from assms(2) obtain a b c d e f x y z where g: "g = [[a, b, c], [d, e, f], [x, y, z]]"
    by (rule valid_state_shape)
  note cells = grid_of_cells9 [OF assms(1) [unfolded g]]
  from assms(2) g have dist: "distinct [a, b, c, d, e, f, x, y, z]"
    using valid_state_distinct by simp
  from assms(2) g have "0 \<in> set [a, b, c, d, e, f, x, y, z]"
    using valid_state_zero by simp
  then consider "a = 0" | "b = 0" | "c = 0" | "d = 0" | "e = 0" | "f = 0"
    | "x = 0" | "y = 0" | "z = 0"
    by auto
  then show ?thesis
  proof cases
    case 1
    with dist show ?thesis
      by - (rule exI [of _ 0], rule exI [of _ 0], auto simp: g buscar_cero_def positions_eval cells less_3_cases)
  next
    case 2
    with dist show ?thesis
      by - (rule exI [of _ 0], rule exI [of _ 1], auto simp: g buscar_cero_def positions_eval cells less_3_cases)
  next
    case 3
    with dist show ?thesis
      by - (rule exI [of _ 0], rule exI [of _ 2], auto simp: g buscar_cero_def positions_eval cells less_3_cases)
  next
    case 4
    with dist show ?thesis
      by - (rule exI [of _ 1], rule exI [of _ 0], auto simp: g buscar_cero_def positions_eval cells less_3_cases)
  next
    case 5
    with dist show ?thesis
      by - (rule exI [of _ 1], rule exI [of _ 1], auto simp: g buscar_cero_def positions_eval cells less_3_cases)
  next
    case 6
    with dist show ?thesis
      by - (rule exI [of _ 1], rule exI [of _ 2], auto simp: g buscar_cero_def positions_eval cells less_3_cases)
  next
    case 7
    with dist show ?thesis
      by - (rule exI [of _ 2], rule exI [of _ 0], auto simp: g buscar_cero_def positions_eval cells less_3_cases)
  next
    case 8
    with dist show ?thesis
      by - (rule exI [of _ 2], rule exI [of _ 1], auto simp: g buscar_cero_def positions_eval cells less_3_cases)
  next
    case 9
    with dist show ?thesis
      by - (rule exI [of _ 2], rule exI [of _ 2], auto simp: g buscar_cero_def positions_eval cells less_3_cases)
  qed
qed

text \<open>
  Claim C7. On a valid state \<open>acciones\<close> returns, in the order UP, DOWN, LEFT, RIGHT,
  the directions that are legal where the blank is (the one cell that holds 0): UP iff its
  row is above 0, DOWN iff its row is below 2, LEFT iff its column is above 0, RIGHT iff its
  column is below 2. The store is left as it was.
\<close>

theorem p_acciones_legal_moves:
  assumes "grid_of h s = Some g" and "valid_state g"
  shows "\<exists>zr zc. zr < 3 \<and> zc < 3 \<and> g ! zr ! zc = 0 \<and>
           (\<forall>r<3. \<forall>c<3. g ! r ! c = 0 \<longrightarrow> r = zr \<and> c = zc) \<and>
           p_acciones h s =
             (Inr (filter (\<lambda>a. a = ''UP'' \<and> 0 < zr \<or> a = ''DOWN'' \<and> zr < 2 \<or>
                               a = ''LEFT'' \<and> 0 < zc \<or> a = ''RIGHT'' \<and> zc < 2)
                     [''UP'', ''DOWN'', ''LEFT'', ''RIGHT'']), h)"
proof -
  from buscar_cero_valid [OF assms] obtain zr zc
    where z: "buscar_cero h s = Inr (zr, zc)" "zr < 3" "zc < 3" "g ! zr ! zc = 0"
      "\<forall>r<3. \<forall>c<3. g ! r ! c = 0 \<longrightarrow> r = zr \<and> c = zc"
    by blast
  have "p_acciones h s =
             (Inr (filter (\<lambda>a. a = ''UP'' \<and> 0 < zr \<or> a = ''DOWN'' \<and> zr < 2 \<or>
                               a = ''LEFT'' \<and> 0 < zc \<or> a = ''RIGHT'' \<and> zc < 2)
                     [''UP'', ''DOWN'', ''LEFT'', ''RIGHT'']), h)"
    by (simp add: p_acciones_def z(1))
  with z show ?thesis by blast
qed

lemma deepcopy_rows_fresh:
  assumes "distinct as" and "\<forall>a\<in>set as. a < length (rows h) \<and> map_of memo a = None"
  shows "deepcopy_rows h memo as =
           Inr ([length (rows h)..<length (rows h) + length as],
                h\<lparr>rows := rows h @ map (\<lambda>a. rows h ! a) as\<rparr>)"
  using assms
proof (induction as arbitrary: h memo)
  case Nil
  then show ?case by simp
next
  case (Cons a as)
  let ?h1 = "h\<lparr>rows := rows h @ [rows h ! a]\<rparr>"
  let ?memo1 = "(a, length (rows h)) # memo"
  from Cons.prems have a: "a < length (rows h)" "map_of memo a = None" "a \<notin> set as"
    by simp_all
  from Cons.prems have d: "distinct as" by simp
  from Cons.prems a(3)
  have p: "\<forall>b\<in>set as. b < length (rows ?h1) \<and> map_of ?memo1 b = None"
    by (auto simp: less_Suc_eq)
  have m: "map (\<lambda>b. rows ?h1 ! b) as = map (\<lambda>b. rows h ! b) as"
    using Cons.prems by (auto simp: nth_append)
  have "deepcopy_rows ?h1 ?memo1 as =
          Inr ([length (rows ?h1)..<length (rows ?h1) + length as],
               ?h1\<lparr>rows := rows ?h1 @ map (\<lambda>b. rows ?h1 ! b) as\<rparr>)"
    using d p by (rule Cons.IH)
  then have ih: "deepcopy_rows ?h1 ?memo1 as =
          Inr ([Suc (length (rows h))..<Suc (length (rows h) + length as)],
               h\<lparr>rows := rows h @ rows h ! a # map (\<lambda>b. rows h ! b) as\<rparr>)"
    using m by simp
  have u: "[length (rows h)..<length (rows h) + length (a # as)] =
             length (rows h) # [Suc (length (rows h))..<Suc (length (rows h) + length as)]"
    by (simp del: upt_Suc add: upt_conv_Cons)
  show ?case
    unfolding u using a ih by (simp add: row_at_def new_row_def)
qed

lemma grid_of_distinct_addrs:
  assumes "grid_of h s = Some g" and "valid_state g"
  shows "distinct (grids h ! s)"
proof -
  from assms(2) obtain a b c d e f x y z where g: "g = [[a, b, c], [d, e, f], [x, y, z]]"
    by (rule valid_state_shape)
  from assms(2) g have "distinct [a, b, c, d, e, f, x, y, z]"
    using valid_state_distinct by simp
  then have "distinct g" by (auto simp: g)
  moreover from assms(1) have "g = map (\<lambda>a. rows h ! a) (grids h ! s)"
    by (auto simp: grid_of_def split: if_splits)
  ultimately show ?thesis by (simp add: distinct_map)
qed

lemma deepcopy_valid:
  assumes "grid_of h s = Some g" and "valid_state g"
  shows "deepcopy h s =
           (Inr (length (grids h)),
            h\<lparr>rows := rows h @ g,
              grids := grids h @ [[length (rows h)..<length (rows h) + 3]]\<rparr>)"
proof -
  from assms(1) have s: "s < length (grids h)"
    and a: "\<forall>a\<in>set (grids h ! s). a < length (rows h)"
    and g: "g = map (\<lambda>a. rows h ! a) (grids h ! s)"
    by (auto simp: grid_of_def split: if_splits)
  from assms(2) have "length g = 3" by (simp add: valid_state_def)
  with g have l: "length (grids h ! s) = 3" by simp
  from a have "\<forall>a\<in>set (grids h ! s). a < length (rows h) \<and> map_of [] a = None"
    by simp
  from deepcopy_rows_fresh [OF grid_of_distinct_addrs [OF assms] this] s l g
  show ?thesis
    by (simp add: deepcopy_def grid_at_def new_grid_def)
qed

lemma heap_literal: "(h :: heap)\<lparr>rows := a, grids := b\<rparr> = \<lparr>rows = a, grids = b\<rparr>"
  by simp

lemma grid_of_preserved:
  assumes "preserved h h'" and "grid_of h s = Some g"
  shows "grid_of h' s = Some g"
proof -
  from assms(1) obtain rs gs where r: "rows h' = rows h @ rs" and q: "grids h' = grids h @ gs"
    by (auto simp: preserved_def prefix_def)
  from assms(2) have s: "s < length (grids h)"
    and a: "\<forall>a\<in>set (grids h ! s). a < length (rows h)"
    and g: "g = map (\<lambda>a. rows h ! a) (grids h ! s)"
    by (auto simp: grid_of_def split: if_splits)
  from s a g show ?thesis
    by (auto simp: grid_of_def r q nth_append)
qed

lemma buscar_cero_same_grid:
  assumes "grid_of h s = Some g" and "grid_of h' s' = Some g" and "valid_state g"
  shows "buscar_cero h' s' = buscar_cero h s"
proof -
  from assms(3) obtain a b c d e f x y z where g: "g = [[a, b, c], [d, e, f], [x, y, z]]"
    by (rule valid_state_shape)
  note c1 = grid_of_cells9 [OF assms(1) [unfolded g]]
  note c2 = grid_of_cells9 [OF assms(2) [unfolded g]]
  show ?thesis
    by (simp add: buscar_cero_def positions_eval c1 c2)
qed

lemma grid_of_copy:
  "grid_of \<lparr>rows = R @ G, grids = Gs @ [[length R..<length R + length G]]\<rparr> (length Gs) = Some G"
  by (auto simp: grid_of_def nth_append intro: nth_equalityI)

lemma setcell_copy:
  assumes "r < length G" and "c < length (G ! r)"
  shows "setcell \<lparr>rows = R @ G, grids = Gs @ [[length R..<length R + length G]]\<rparr> (length Gs) r c v =
           (Inr (), \<lparr>rows = R @ G[r := (G ! r)[c := v]],
                     grids = Gs @ [[length R..<length R + length G]]\<rparr>)"
  using assms
  by (simp add: setcell_def grid_at_def getitem_def row_at_def nth_append list_update_append)

lemma valid_state_lengths:
  assumes "valid_state g" and "r < 3"
  shows "length g = 3" and "length (g ! r) = 3"
  using assms by (auto simp: valid_state_def)

lemma p_resultado_swap:
  assumes "grid_of h s = Some g" and "valid_state g"
    and "buscar_cero h s = Inr (zr, zc)" and "zr < 3" and "zc < 3"
    and "(if a = ''UP'' then Inr (int zr - 1, int zc)
          else if a = ''DOWN'' then Inr (int zr + 1, int zc)
          else if a = ''LEFT'' then Inr (int zr, int zc - 1)
          else if a = ''RIGHT'' then Inr (int zr, int zc + 1)
          else Inl (ValueError (''Accion invalida: '' @ a))) = Inr (nr, nc)"
    and "0 \<le> nr" and "nr < 3" and "0 \<le> nc" and "nc < 3"
  shows "p_resultado h s a =
           (Inr (length (grids h)),
            \<lparr>rows = rows h @ swap_cells g (zr, zc) (nat nr, nat nc),
             grids = grids h @ [[length (rows h)..<length (rows h) + 3]]\<rparr>)"
proof -
  let ?n = "length (rows h)"
  let ?m = "length (grids h)"
  let ?gs = "grids h @ [[?n..<?n + length g]]"
  let ?h1 = "\<lparr>rows = rows h @ g, grids = ?gs\<rparr>"
  let ?t1 = "g ! nat nr ! nat nc"
  let ?t2 = "g ! zr ! zc"
  let ?g1 = "g[zr := (g ! zr)[zc := ?t1]]"
  let ?h2 = "\<lparr>rows = rows h @ ?g1, grids = ?gs\<rparr>"
  let ?g2 = "?g1[nat nr := (?g1 ! nat nr)[nat nc := ?t2]]"
  let ?h3 = "\<lparr>rows = rows h @ ?g2, grids = ?gs\<rparr>"
  have n: "nat nr < 3" "nat nc < 3" using assms(7-10) by simp_all
  have lg: "length g = 3" using assms(2) by (simp add: valid_state_def)
  have lz: "length (g ! zr) = 3" using assms(2,4) by (rule valid_state_lengths)
  have ln: "length (g ! nat nr) = 3" using assms(2) n(1) by (rule valid_state_lengths)
  have dc: "deepcopy h s = (Inr ?m, ?h1)"
    using deepcopy_valid [OF assms(1,2)] lg by (simp add: heap_literal)
  have "preserved h ?h1" by (simp add: preserved_def)
  then have "grid_of ?h1 s = Some g" using assms(1) by (rule grid_of_preserved)
  with assms(1) have "buscar_cero ?h1 s = buscar_cero h s"
    using assms(2) by (rule buscar_cero_same_grid)
  with assms(3) have bc: "buscar_cero ?h1 s = Inr (zr, zc)" by simp
  have gc: "grid_of ?h1 ?m = Some g" by (rule grid_of_copy)
  have c1: "cell ?h1 ?m (nat nr) (nat nc) = Inr ?t1"
    using gc by (rule grid_of_cell) (simp_all add: lg ln n)
  have c2: "cell ?h1 ?m zr zc = Inr ?t2"
    using gc by (rule grid_of_cell) (simp_all add: lg lz assms(4,5))
  have s1: "setcell ?h1 ?m zr zc ?t1 = (Inr (), ?h2)"
    by (rule setcell_copy) (simp_all add: lg lz assms(4,5))
  have l1: "length ?g1 = length g" by simp
  have ln1: "length (?g1 ! nat nr) = 3"
    using lg ln lz n(1) assms(4) by (simp add: nth_list_update)
  have "setcell \<lparr>rows = rows h @ ?g1, grids = grids h @ [[?n..<?n + length ?g1]]\<rparr> ?m
          (nat nr) (nat nc) ?t2 =
        (Inr (), \<lparr>rows = rows h @ ?g2, grids = grids h @ [[?n..<?n + length ?g1]]\<rparr>)"
    by (rule setcell_copy) (simp_all add: lg ln1 n)
  then have s2: "setcell ?h2 ?m (nat nr) (nat nc) ?t2 = (Inr (), ?h3)"
    by (simp only: l1)
  have sw: "swap_cells g (zr, zc) (nat nr, nat nc) = ?g2"
    by (simp add: swap_cells_def Let_def)
  have "p_resultado h s a = (Inr ?m, ?h3)"
    unfolding p_resultado_def dc
    by (simp only: prod.case sum.case bc assms(6) n assms(7-10) c1 c2 s1 s2 simp_thms if_False)
  then show ?thesis by (simp only: sw lg)
qed

lemma swap_cells_nth:
  assumes "zr < length g" and "zc < length (g ! zr)" and "nr < length g" and "nc < length (g ! nr)"
    and "r < length g" and "c < length (g ! r)"
  shows "swap_cells g (zr, zc) (nr, nc) ! r ! c =
           (if (r, c) = (nr, nc) then g ! zr ! zc
            else if (r, c) = (zr, zc) then g ! nr ! nc
            else g ! r ! c)"
  using assms by (auto simp: swap_cells_def Let_def nth_list_update)

lemma swap_cells_mset:
  assumes "zr < 3" and "zc < 3" and "nr < 3" and "nc < 3"
  shows "mset (concat (swap_cells [[a, b, c], [d, e, f], [x, y, z]] (zr, zc) (nr, nc))) =
         mset (concat [[a, b, c], [d, e, f], [x, y, z]])"
  using assms by (auto simp: less_3_cases swap_cells_def Let_def)

lemma valid_state_inj:
  assumes "valid_state g" and "r < 3" and "c < 3" and "r' < 3" and "c' < 3"
    and "g ! r ! c = g ! r' ! c'"
  shows "r = r' \<and> c = c'"
proof -
  from assms(1) obtain a b c d e f x y z where g: "g = [[a, b, c], [d, e, f], [x, y, z]]"
    by (rule valid_state_shape)
  from assms(1) g have "distinct [a, b, c, d, e, f, x, y, z]"
    using valid_state_distinct by simp
  with assms(2-6) show ?thesis
    by (auto simp: g less_3_cases)
qed

lemma swap_cells_shape:
  assumes "valid_state g" and "zr < 3" and "zc < 3" and "nr < 3" and "nc < 3"
  shows "length (swap_cells g (zr, zc) (nr, nc)) = 3"
    and "\<forall>row\<in>set (swap_cells g (zr, zc) (nr, nc)). length row = 3"
proof -
  from assms(1) obtain a b c d e f x y z where g: "g = [[a, b, c], [d, e, f], [x, y, z]]"
    by (rule valid_state_shape)
  from assms(1) have "length g = 3" by (simp add: valid_state_def)
  then show "length (swap_cells g (zr, zc) (nr, nc)) = 3"
    by (simp add: swap_cells_def Let_def)
  from assms(2-5) show "\<forall>row\<in>set (swap_cells g (zr, zc) (nr, nc)). length row = 3"
    by (auto simp: g less_3_cases swap_cells_def Let_def)
qed

lemma swap_cells_valid:
  assumes "valid_state g" and "zr < 3" and "zc < 3" and "nr < 3" and "nc < 3"
  shows "valid_state (swap_cells g (zr, zc) (nr, nc))"
proof -
  from assms(1) obtain a b c d e f x y z where g: "g = [[a, b, c], [d, e, f], [x, y, z]]"
    by (rule valid_state_shape)
  from assms(1) have "mset (concat g) = mset [0..8]" by (simp add: valid_state_def)
  with swap_cells_mset [OF assms(2-5)]
  have "mset (concat (swap_cells g (zr, zc) (nr, nc))) = mset [0..8]"
    by (simp only: g)
  with swap_cells_shape [OF assms] show ?thesis
    by (simp only: valid_state_def simp_thms)
qed

lemma set_positions: "set positions = {(r, c). r < 3 \<and> c < 3}"
  by (auto simp: positions_def)

lemma swap_cells_diff:
  assumes "valid_state g" and "zr < 3" and "zc < 3" and "nr < 3" and "nc < 3"
    and "(zr, zc) \<noteq> (nr, nc)"
  shows "set (diff_cells g (swap_cells g (zr, zc) (nr, nc))) = {(zr, zc), (nr, nc)}"
proof -
  have lg: "length g = 3" using assms(1) by (simp add: valid_state_def)
  have lr: "\<And>r. r < 3 \<Longrightarrow> length (g ! r) = 3"
    using assms(1) by (rule valid_state_lengths)
  have nth: "\<And>r c. r < 3 \<Longrightarrow> c < 3 \<Longrightarrow>
      swap_cells g (zr, zc) (nr, nc) ! r ! c =
        (if (r, c) = (nr, nc) then g ! zr ! zc
         else if (r, c) = (zr, zc) then g ! nr ! nc
         else g ! r ! c)"
    by (rule swap_cells_nth) (simp_all add: lg lr assms(2-5))
  have ne: "g ! zr ! zc \<noteq> g ! nr ! nc"
    using valid_state_inj [OF assms(1-3) assms(4,5)] assms(6) by auto
  show ?thesis
  proof (rule set_eqI)
    fix p :: "nat \<times> nat"
    obtain r c where p: "p = (r, c)" by (cases p)
    show "p \<in> set (diff_cells g (swap_cells g (zr, zc) (nr, nc))) \<longleftrightarrow>
            p \<in> {(zr, zc), (nr, nc)}"
    proof (cases "r < 3 \<and> c < 3")
      case True
      then show ?thesis
        using ne nth [of r c] by (auto simp: p diff_cells_def set_positions)
    next
      case False
      then show ?thesis
        using assms(2-5) by (auto simp: p diff_cells_def set_positions)
    qed
  qed
qed

lemma p_resultado_prefix:
  assumes "grid_of h s = Some g" and "valid_state g" and "buscar_cero h s = Inr (zr, zc)"
  shows "deepcopy h s =
           (Inr (length (grids h)),
            \<lparr>rows = rows h @ g, grids = grids h @ [[length (rows h)..<length (rows h) + 3]]\<rparr>)"
    and "buscar_cero \<lparr>rows = rows h @ g,
            grids = grids h @ [[length (rows h)..<length (rows h) + 3]]\<rparr> s = Inr (zr, zc)"
    and "preserved h \<lparr>rows = rows h @ g,
            grids = grids h @ [[length (rows h)..<length (rows h) + 3]]\<rparr>"
    and "grid_of \<lparr>rows = rows h @ g,
            grids = grids h @ [[length (rows h)..<length (rows h) + 3]]\<rparr> s = Some g"
proof -
  let ?h1 = "\<lparr>rows = rows h @ g, grids = grids h @ [[length (rows h)..<length (rows h) + 3]]\<rparr>"
  show "deepcopy h s = (Inr (length (grids h)), ?h1)"
    using deepcopy_valid [OF assms(1,2)] by (simp add: heap_literal)
  show p: "preserved h ?h1" by (simp add: preserved_def)
  then show g1: "grid_of ?h1 s = Some g" using assms(1) by (rule grid_of_preserved)
  with assms(1) have "buscar_cero ?h1 s = buscar_cero h s"
    using assms(2) by (rule buscar_cero_same_grid)
  with assms(3) show "buscar_cero ?h1 s = Inr (zr, zc)" by simp
qed

lemma p_resultado_invalid:
  assumes "grid_of h s = Some g" and "valid_state g" and "buscar_cero h s = Inr (zr, zc)"
    and "a \<notin> {''UP'', ''DOWN'', ''LEFT'', ''RIGHT''}"
  shows "p_resultado h s a =
           (Inl (ValueError (''Accion invalida: '' @ a)),
            \<lparr>rows = rows h @ g, grids = grids h @ [[length (rows h)..<length (rows h) + 3]]\<rparr>)"
proof -
  from assms(4) have "a \<noteq> ''UP''" "a \<noteq> ''DOWN''" "a \<noteq> ''LEFT''" "a \<noteq> ''RIGHT''"
    by simp_all
  then show ?thesis
    unfolding p_resultado_def p_resultado_prefix(1) [OF assms(1-3)]
    by (simp only: prod.case sum.case p_resultado_prefix(2) [OF assms(1-3)] if_False)
qed

lemma p_resultado_out_of_range:
  assumes "grid_of h s = Some g" and "valid_state g" and "buscar_cero h s = Inr (zr, zc)"
    and "(if a = ''UP'' then Inr (int zr - 1, int zc)
          else if a = ''DOWN'' then Inr (int zr + 1, int zc)
          else if a = ''LEFT'' then Inr (int zr, int zc - 1)
          else if a = ''RIGHT'' then Inr (int zr, int zc + 1)
          else Inl (ValueError (''Accion invalida: '' @ a))) = Inr (nr, nc)"
    and "\<not> (0 \<le> nr \<and> nr < 3 \<and> 0 \<le> nc \<and> nc < 3)"
  shows "p_resultado h s a =
           (Inl (IndexError ''Movimiento fuera de limites''),
            \<lparr>rows = rows h @ g, grids = grids h @ [[length (rows h)..<length (rows h) + 3]]\<rparr>)"
  unfolding p_resultado_def p_resultado_prefix(1) [OF assms(1-3)]
  by (simp only: prod.case sum.case p_resultado_prefix(2) [OF assms(1-3)] assms(4,5)
        simp_thms if_True)

lemma p_resultado_outside:
  assumes "grid_of h s = Some g" and "valid_state g" and "buscar_cero h s = Inr (zr, zc)"
    and "a = ''UP'' \<and> zr = 0 \<or> a = ''DOWN'' \<and> zr = 2 \<or>
         a = ''LEFT'' \<and> zc = 0 \<or> a = ''RIGHT'' \<and> zc = 2"
  shows "p_resultado h s a =
           (Inl (IndexError ''Movimiento fuera de limites''),
            \<lparr>rows = rows h @ g, grids = grids h @ [[length (rows h)..<length (rows h) + 3]]\<rparr>)"
proof -
  from assms(4) consider "a = ''UP''" "zr = 0" | "a = ''DOWN''" "zr = 2"
    | "a = ''LEFT''" "zc = 0" | "a = ''RIGHT''" "zc = 2"
    by blast
  then show ?thesis
  proof cases
    case 1
    show ?thesis
      by (rule p_resultado_out_of_range [OF assms(1-3), where nr = "- 1" and nc = "int zc"])
         (simp_all add: 1)
  next
    case 2
    show ?thesis
      by (rule p_resultado_out_of_range [OF assms(1-3), where nr = 3 and nc = "int zc"])
         (simp_all add: 2)
  next
    case 3
    show ?thesis
      by (rule p_resultado_out_of_range [OF assms(1-3), where nr = "int zr" and nc = "- 1"])
         (simp_all add: 3)
  next
    case 4
    show ?thesis
      by (rule p_resultado_out_of_range [OF assms(1-3), where nr = "int zr" and nc = 3])
         (simp_all add: 4)
  qed
qed

lemma p_resultado_inside:
  assumes "grid_of h s = Some g" and "valid_state g" and "buscar_cero h s = Inr (zr, zc)"
    and "zr < 3" and "zc < 3" and "nr < 3" and "nc < 3"
    and "a = ''UP'' \<and> Suc nr = zr \<and> nc = zc \<or> a = ''DOWN'' \<and> nr = Suc zr \<and> nc = zc \<or>
         a = ''LEFT'' \<and> nr = zr \<and> Suc nc = zc \<or> a = ''RIGHT'' \<and> nr = zr \<and> nc = Suc zc"
  shows "p_resultado h s a =
           (Inr (length (grids h)),
            \<lparr>rows = rows h @ swap_cells g (zr, zc) (nr, nc),
             grids = grids h @ [[length (rows h)..<length (rows h) + 3]]\<rparr>)"
proof -
  from assms(8) consider "a = ''UP''" "Suc nr = zr" "nc = zc" | "a = ''DOWN''" "nr = Suc zr" "nc = zc"
    | "a = ''LEFT''" "nr = zr" "Suc nc = zc" | "a = ''RIGHT''" "nr = zr" "nc = Suc zc"
    by blast
  then have "(if a = ''UP'' then Inr (int zr - 1, int zc)
         else if a = ''DOWN'' then Inr (int zr + 1, int zc)
         else if a = ''LEFT'' then Inr (int zr, int zc - 1)
         else if a = ''RIGHT'' then Inr (int zr, int zc + 1)
         else Inl (ValueError (''Accion invalida: '' @ a))) = Inr (int nr, int nc)"
  proof cases
    case 1
    then show ?thesis by (simp add: 1(2) [symmetric])
  next
    case 2
    then show ?thesis by simp
  next
    case 3
    then show ?thesis by (simp add: 3(3) [symmetric])
  next
    case 4
    then show ?thesis by simp
  qed
  from this have "p_resultado h s a =
           (Inr (length (grids h)),
            \<lparr>rows = rows h @ swap_cells g (zr, zc) (nat (int nr), nat (int nc)),
             grids = grids h @ [[length (rows h)..<length (rows h) + 3]]\<rparr>)"
    by (rule p_resultado_swap [OF assms(1-5)]) (simp_all add: assms(6,7))
  then show ?thesis by (simp only: nat_int)
qed

lemma p_acciones_valid:
  assumes "buscar_cero h s = Inr (zr, zc)"
  shows "p_acciones h s =
           (Inr (filter (\<lambda>a. a = ''UP'' \<and> 0 < zr \<or> a = ''DOWN'' \<and> zr < 2 \<or>
                             a = ''LEFT'' \<and> 0 < zc \<or> a = ''RIGHT'' \<and> zc < 2)
                   [''UP'', ''DOWN'', ''LEFT'', ''RIGHT'']), h)"
  by (simp add: p_acciones_def assms)

lemma p_resultado_step:
  assumes "grid_of h s = Some g" and "valid_state g" and "buscar_cero h s = Inr (zr, zc)"
    and "zr < 3" and "zc < 3" and "g ! zr ! zc = 0" and "nr < 3" and "nc < 3"
    and "a = ''UP'' \<and> Suc nr = zr \<and> nc = zc \<or> a = ''DOWN'' \<and> nr = Suc zr \<and> nc = zc \<or>
         a = ''LEFT'' \<and> nr = zr \<and> Suc nc = zc \<or> a = ''RIGHT'' \<and> nr = zr \<and> nc = Suc zc"
  shows "\<exists>s' h' g'.
           p_resultado h s a = (Inr s', h') \<and> grid_of h' s' = Some g' \<and> valid_state g' \<and>
           g' ! nr ! nc = 0 \<and> g' ! zr ! zc = g ! nr ! nc \<and> g ! nr ! nc \<noteq> 0 \<and>
           (zr, zc) \<noteq> (nr, nc) \<and> set (diff_cells g g') = {(zr, zc), (nr, nc)} \<and>
           grid_of h' s = Some g \<and> preserved h h' \<and> grid_of h s' = None"
proof -
  let ?g' = "swap_cells g (zr, zc) (nr, nc)"
  let ?h' = "\<lparr>rows = rows h @ ?g',
              grids = grids h @ [[length (rows h)..<length (rows h) + 3]]\<rparr>"
  have ne: "(zr, zc) \<noteq> (nr, nc)" using assms(9) by auto
  have lg: "length g = 3" using assms(2) by (simp add: valid_state_def)
  have lr: "\<And>r. r < 3 \<Longrightarrow> length (g ! r) = 3"
    using assms(2) by (rule valid_state_lengths)
  have v': "valid_state ?g'"
    using assms(2,4,5,7,8) by (rule swap_cells_valid)
  then have lg': "length ?g' = 3" by (simp add: valid_state_def)
  have r: "p_resultado h s a = (Inr (length (grids h)), ?h')"
    using assms(1-5,7-9) by (rule p_resultado_inside)
  have "grid_of \<lparr>rows = rows h @ ?g',
          grids = grids h @ [[length (rows h)..<length (rows h) + length ?g']]\<rparr>
          (length (grids h)) = Some ?g'"
    by (rule grid_of_copy)
  then have g1: "grid_of ?h' (length (grids h)) = Some ?g'" by (simp only: lg')
  have n1: "?g' ! nr ! nc = g ! zr ! zc"
    using swap_cells_nth [of zr g zc nr nc nr nc] by (simp add: lg lr assms(4,5,7,8))
  have n2: "?g' ! zr ! zc = g ! nr ! nc"
    using swap_cells_nth [of zr g zc nr nc zr zc] ne by (auto simp: lg lr assms(4,5,7,8))
  have n3: "g ! nr ! nc \<noteq> 0"
    using valid_state_inj [OF assms(2,4,5,7,8)] ne assms(6) by auto
  have d: "set (diff_cells g ?g') = {(zr, zc), (nr, nc)}"
    using assms(2,4,5,7,8) ne by (rule swap_cells_diff)
  have p: "preserved h ?h'" by (simp add: preserved_def)
  then have g0: "grid_of ?h' s = Some g" using assms(1) by (rule grid_of_preserved)
  have f: "grid_of h (length (grids h)) = None" by (simp add: grid_of_def)
  from r g1 v' n1 n2 n3 ne d g0 p f assms(6) show ?thesis
    by (intro exI [of _ "length (grids h)"] exI [of _ ?h'] exI [of _ ?g']) simp
qed

text \<open>
  Claim C2. On a valid state \<open>s\<close> and an action \<open>a\<close> that \<open>acciones\<close> lists,
  \<open>resultado\<close> raises nothing and returns a state at an address the store did not have.
  Its grid is valid and differs from the grid of \<open>s\<close> in two cells: the old place of the
  blank, which now holds the neighbour's value, and the neighbour in the direction of \<open>a\<close>,
  which now holds 0. The grid of \<open>s\<close> is what it was, and so is every object of the store
  that existed.
\<close>

theorem p_resultado_swaps_blank:
  assumes "grid_of h s = Some g" and "valid_state g"
    and "p_acciones h s = (Inr acts, h0)" and "a \<in> set acts"
  shows "\<exists>s' h' g' zr zc nr nc.
           p_resultado h s a = (Inr s', h') \<and> grid_of h' s' = Some g' \<and> valid_state g' \<and>
           zr < 3 \<and> zc < 3 \<and> nr < 3 \<and> nc < 3 \<and> g ! zr ! zc = 0 \<and>
           (a = ''UP'' \<and> Suc nr = zr \<and> nc = zc \<or> a = ''DOWN'' \<and> nr = Suc zr \<and> nc = zc \<or>
            a = ''LEFT'' \<and> nr = zr \<and> Suc nc = zc \<or> a = ''RIGHT'' \<and> nr = zr \<and> nc = Suc zc) \<and>
           g' ! nr ! nc = 0 \<and> g' ! zr ! zc = g ! nr ! nc \<and> g ! nr ! nc \<noteq> 0 \<and>
           (zr, zc) \<noteq> (nr, nc) \<and> set (diff_cells g g') = {(zr, zc), (nr, nc)} \<and>
           grid_of h' s = Some g \<and> preserved h h' \<and> grid_of h s' = None"
proof -
  from buscar_cero_valid [OF assms(1,2)] obtain zr zc
    where z: "buscar_cero h s = Inr (zr, zc)" "zr < 3" "zc < 3" "g ! zr ! zc = 0"
    by blast
  from assms(3) p_acciones_valid [OF z(1)]
  have "acts = filter (\<lambda>a. a = ''UP'' \<and> 0 < zr \<or> a = ''DOWN'' \<and> zr < 2 \<or>
                             a = ''LEFT'' \<and> 0 < zc \<or> a = ''RIGHT'' \<and> zc < 2)
                   [''UP'', ''DOWN'', ''LEFT'', ''RIGHT'']"
    by simp
  with assms(4)
  have "a = ''UP'' \<and> 0 < zr \<or> a = ''DOWN'' \<and> zr < 2 \<or>
        a = ''LEFT'' \<and> 0 < zc \<or> a = ''RIGHT'' \<and> zc < 2"
    by (simp del: filter.simps)
  then consider "a = ''UP''" "0 < zr" | "a = ''DOWN''" "zr < 2"
    | "a = ''LEFT''" "0 < zc" | "a = ''RIGHT''" "zc < 2"
    by (elim disjE conjE) simp_all
  then obtain nr nc where n: "nr < 3" "nc < 3"
    and m: "a = ''UP'' \<and> Suc nr = zr \<and> nc = zc \<or> a = ''DOWN'' \<and> nr = Suc zr \<and> nc = zc \<or>
            a = ''LEFT'' \<and> nr = zr \<and> Suc nc = zc \<or> a = ''RIGHT'' \<and> nr = zr \<and> nc = Suc zc"
  proof cases
    case 1
    with z(2,3) that [of "zr - 1" zc] show ?thesis by simp
  next
    case 2
    with z(2,3) that [of "Suc zr" zc] show ?thesis by simp
  next
    case 3
    with z(2,3) that [of zr "zc - 1"] show ?thesis by simp
  next
    case 4
    with z(2,3) that [of zr "Suc zc"] show ?thesis by simp
  qed
  from p_resultado_step [OF assms(1,2) z n m] obtain s' h' g'
    where r: "p_resultado h s a = (Inr s', h')" "grid_of h' s' = Some g'" "valid_state g'"
      "g' ! nr ! nc = 0" "g' ! zr ! zc = g ! nr ! nc" "g ! nr ! nc \<noteq> 0"
      "(zr, zc) \<noteq> (nr, nc)" "set (diff_cells g g') = {(zr, zc), (nr, nc)}"
      "grid_of h' s = Some g" "preserved h h'" "grid_of h s' = None"
    by blast
  from r z(2-4) n m show ?thesis
    by - (rule exI [of _ s'], rule exI [of _ h'], rule exI [of _ g'], rule exI [of _ zr],
          rule exI [of _ zc], rule exI [of _ nr], rule exI [of _ nc], (intro conjI; assumption))
qed

lemma move_inside:
  assumes "zr < 3" and "zc < 3" and "a \<in> {''UP'', ''DOWN'', ''LEFT'', ''RIGHT''}"
    and "\<not> (a = ''UP'' \<and> zr = 0 \<or> a = ''DOWN'' \<and> zr = 2 \<or>
            a = ''LEFT'' \<and> zc = 0 \<or> a = ''RIGHT'' \<and> zc = 2)"
  shows "\<exists>nr nc. nr < 3 \<and> nc < 3 \<and>
           (a = ''UP'' \<and> Suc nr = zr \<and> nc = zc \<or> a = ''DOWN'' \<and> nr = Suc zr \<and> nc = zc \<or>
            a = ''LEFT'' \<and> nr = zr \<and> Suc nc = zc \<or> a = ''RIGHT'' \<and> nr = zr \<and> nc = Suc zc)"
proof -
  from assms(3) consider "a = ''UP''" | "a = ''DOWN''" | "a = ''LEFT''" | "a = ''RIGHT''"
    by (elim insertE emptyE) simp_all
  then show ?thesis
  proof cases
    case 1
    with assms(1,2,4) show ?thesis
      by - (rule exI [of _ "zr - 1"], rule exI [of _ zc], simp)
  next
    case 2
    with assms(1,2,4) show ?thesis
      by - (rule exI [of _ "Suc zr"], rule exI [of _ zc], simp)
  next
    case 3
    with assms(1,2,4) show ?thesis
      by - (rule exI [of _ zr], rule exI [of _ "zc - 1"], simp)
  next
    case 4
    with assms(1,2,4) show ?thesis
      by - (rule exI [of _ zr], rule exI [of _ "Suc zc"], simp)
  qed
qed

lemma p_resultado_failure:
  assumes "grid_of h s = Some g" and "valid_state g" and "buscar_cero h s = Inr (zr, zc)"
    and "zr < 3" and "zc < 3"
    and "p_resultado h s a = (Inl e, h')"
  shows "h' = \<lparr>rows = rows h @ g,
                grids = grids h @ [[length (rows h)..<length (rows h) + 3]]\<rparr> \<and>
         (a \<notin> {''UP'', ''DOWN'', ''LEFT'', ''RIGHT''} \<or>
          a = ''UP'' \<and> zr = 0 \<or> a = ''DOWN'' \<and> zr = 2 \<or>
          a = ''LEFT'' \<and> zc = 0 \<or> a = ''RIGHT'' \<and> zc = 2)"
proof (cases "a \<in> {''UP'', ''DOWN'', ''LEFT'', ''RIGHT''}")
  case False
  from p_resultado_invalid [OF assms(1-3) False] assms(6) False show ?thesis
    by simp
next
  case True
  show ?thesis
  proof (cases "a = ''UP'' \<and> zr = 0 \<or> a = ''DOWN'' \<and> zr = 2 \<or>
                a = ''LEFT'' \<and> zc = 0 \<or> a = ''RIGHT'' \<and> zc = 2")
    case out: True
    from p_resultado_outside [OF assms(1-3) out] assms(6)
    have "h' = \<lparr>rows = rows h @ g,
                grids = grids h @ [[length (rows h)..<length (rows h) + 3]]\<rparr>"
      by simp
    then show ?thesis using out by (rule conjI [OF _ disjI2])
  next
    case False
    from move_inside [OF assms(4,5) True False] obtain nr nc
      where "nr < 3" "nc < 3"
        "a = ''UP'' \<and> Suc nr = zr \<and> nc = zc \<or> a = ''DOWN'' \<and> nr = Suc zr \<and> nc = zc \<or>
         a = ''LEFT'' \<and> nr = zr \<and> Suc nc = zc \<or> a = ''RIGHT'' \<and> nr = zr \<and> nc = Suc zc"
      by (elim exE conjE)
    with assms(1-5) have "p_resultado h s a =
          (Inr (length (grids h)),
           \<lparr>rows = rows h @ swap_cells g (zr, zc) (nr, nc),
            grids = grids h @ [[length (rows h)..<length (rows h) + 3]]\<rparr>)"
      by (rule p_resultado_inside)
    with assms(6) have False by simp
    then show ?thesis ..
  qed
qed

text \<open>
  Claim C8. On a valid state, \<open>resultado\<close> raises the ValueError of an invalid action
  when the action is none of UP, DOWN, LEFT, RIGHT, and the IndexError of a move out of
  bounds when the cell next to the blank in the direction of the action lies outside the
  grid; so it does for UP with the blank at (0,0). Whenever \<open>resultado\<close> fails on a valid
  state, it is in one of these cases, the grid of the input is what it was, and so is
  every object of the store that existed.
\<close>

theorem p_resultado_errors:
  assumes "grid_of h s = Some g" and "valid_state g"
  shows "\<exists>zr zc. zr < 3 \<and> zc < 3 \<and> g ! zr ! zc = 0 \<and>
           (a \<notin> {''UP'', ''DOWN'', ''LEFT'', ''RIGHT''} \<longrightarrow>
              (\<exists>h'. p_resultado h s a = (Inl (ValueError (''Accion invalida: '' @ a)), h'))) \<and>
           (a = ''UP'' \<and> zr = 0 \<or> a = ''DOWN'' \<and> zr = 2 \<or>
            a = ''LEFT'' \<and> zc = 0 \<or> a = ''RIGHT'' \<and> zc = 2 \<longrightarrow>
              (\<exists>h'. p_resultado h s a = (Inl (IndexError ''Movimiento fuera de limites''), h'))) \<and>
           (zr = 0 \<and> zc = 0 \<longrightarrow>
              (\<exists>h'. p_resultado h s ''UP'' = (Inl (IndexError ''Movimiento fuera de limites''), h'))) \<and>
           (\<forall>e h'. p_resultado h s a = (Inl e, h') \<longrightarrow>
              preserved h h' \<and> grid_of h' s = Some g \<and>
              (a \<notin> {''UP'', ''DOWN'', ''LEFT'', ''RIGHT''} \<or>
               a = ''UP'' \<and> zr = 0 \<or> a = ''DOWN'' \<and> zr = 2 \<or>
               a = ''LEFT'' \<and> zc = 0 \<or> a = ''RIGHT'' \<and> zc = 2))"
proof -
  let ?h1 = "\<lparr>rows = rows h @ g, grids = grids h @ [[length (rows h)..<length (rows h) + 3]]\<rparr>"
  from buscar_cero_valid [OF assms(1,2)] obtain zr zc
    where z: "buscar_cero h s = Inr (zr, zc)" "zr < 3" "zc < 3" "g ! zr ! zc = 0"
    by blast
  note pre = p_resultado_prefix(3,4) [OF assms z(1)]
  have c1: "a \<notin> {''UP'', ''DOWN'', ''LEFT'', ''RIGHT''} \<longrightarrow>
      (\<exists>h'. p_resultado h s a = (Inl (ValueError (''Accion invalida: '' @ a)), h'))"
  proof
    assume "a \<notin> {''UP'', ''DOWN'', ''LEFT'', ''RIGHT''}"
    with assms z(1)
    have "p_resultado h s a = (Inl (ValueError (''Accion invalida: '' @ a)), ?h1)"
      by (rule p_resultado_invalid)
    then show "\<exists>h'. p_resultado h s a = (Inl (ValueError (''Accion invalida: '' @ a)), h')" ..
  qed
  have c2: "a = ''UP'' \<and> zr = 0 \<or> a = ''DOWN'' \<and> zr = 2 \<or>
            a = ''LEFT'' \<and> zc = 0 \<or> a = ''RIGHT'' \<and> zc = 2 \<longrightarrow>
      (\<exists>h'. p_resultado h s a = (Inl (IndexError ''Movimiento fuera de limites''), h'))"
  proof
    assume "a = ''UP'' \<and> zr = 0 \<or> a = ''DOWN'' \<and> zr = 2 \<or>
            a = ''LEFT'' \<and> zc = 0 \<or> a = ''RIGHT'' \<and> zc = 2"
    with assms z(1)
    have "p_resultado h s a = (Inl (IndexError ''Movimiento fuera de limites''), ?h1)"
      by (rule p_resultado_outside)
    then show "\<exists>h'. p_resultado h s a = (Inl (IndexError ''Movimiento fuera de limites''), h')" ..
  qed
  have c3: "zr = 0 \<and> zc = 0 \<longrightarrow>
      (\<exists>h'. p_resultado h s ''UP'' = (Inl (IndexError ''Movimiento fuera de limites''), h'))"
  proof
    assume "zr = 0 \<and> zc = 0"
    then have "''UP'' = ''UP'' \<and> zr = 0 \<or> ''UP'' = ''DOWN'' \<and> zr = 2 \<or>
            ''UP'' = ''LEFT'' \<and> zc = 0 \<or> ''UP'' = ''RIGHT'' \<and> zc = 2"
      by simp
    with assms z(1)
    have "p_resultado h s ''UP'' = (Inl (IndexError ''Movimiento fuera de limites''), ?h1)"
      by (rule p_resultado_outside)
    then show "\<exists>h'. p_resultado h s ''UP'' = (Inl (IndexError ''Movimiento fuera de limites''), h')" ..
  qed
  have c4: "\<forall>e h'. p_resultado h s a = (Inl e, h') \<longrightarrow>
              preserved h h' \<and> grid_of h' s = Some g \<and>
              (a \<notin> {''UP'', ''DOWN'', ''LEFT'', ''RIGHT''} \<or>
               a = ''UP'' \<and> zr = 0 \<or> a = ''DOWN'' \<and> zr = 2 \<or>
               a = ''LEFT'' \<and> zc = 0 \<or> a = ''RIGHT'' \<and> zc = 2)"
  proof (intro allI impI)
    fix e h' assume "p_resultado h s a = (Inl e, h')"
    with assms z(1-3) have f: "h' = ?h1 \<and>
         (a \<notin> {''UP'', ''DOWN'', ''LEFT'', ''RIGHT''} \<or>
          a = ''UP'' \<and> zr = 0 \<or> a = ''DOWN'' \<and> zr = 2 \<or>
          a = ''LEFT'' \<and> zc = 0 \<or> a = ''RIGHT'' \<and> zc = 2)"
      by (rule p_resultado_failure)
    then have "h' = ?h1" ..
    with pre have "preserved h h'" "grid_of h' s = Some g" by simp_all
    with f show "preserved h h' \<and> grid_of h' s = Some g \<and>
              (a \<notin> {''UP'', ''DOWN'', ''LEFT'', ''RIGHT''} \<or>
               a = ''UP'' \<and> zr = 0 \<or> a = ''DOWN'' \<and> zr = 2 \<or>
               a = ''LEFT'' \<and> zc = 0 \<or> a = ''RIGHT'' \<and> zc = 2)"
      by (intro conjI) (assumption, assumption, elim conjE, assumption)
  qed
  from z(2-4) c1 c2 c3 c4 show ?thesis
    by - (rule exI [of _ zr], rule exI [of _ zc], (intro conjI; assumption))
qed

lemma valid_state_goal: "valid_state [[0, 1, 2], [3, 4, 5], [6, 7, 8]]"
  by (simp add: valid_state_def upto_rec1)

lemma valid_state_102: "valid_state [[1, 0, 2], [3, 4, 5], [6, 7, 8]]"
  by (simp add: valid_state_def upto_rec1)

lemma grid_of_goal:
  "grid_of \<lparr>rows = [[0, 1, 2], [3, 4, 5], [6, 7, 8]], grids = [[0, 1, 2]]\<rparr> 0 =
     Some [[0, 1, 2], [3, 4, 5], [6, 7, 8]]"
  by (simp add: grid_of_def)

lemma grid_of_102:
  "grid_of \<lparr>rows = [[1, 0, 2], [3, 4, 5], [6, 7, 8]], grids = [[0, 1, 2]]\<rparr> 0 =
     Some [[1, 0, 2], [3, 4, 5], [6, 7, 8]]"
  by (simp add: grid_of_def)

lemma goal_blank:
  assumes "zr < 3" and "zc < 3" and "[[0, 1, 2], [3, 4, 5], [6, 7, 8 :: int]] ! zr ! zc = 0"
  shows "zr = 0 \<and> zc = 0"
  using assms by (auto simp: less_3_cases)

theorem p_acciones_legal_moves_witness:
  "grid_of \<lparr>rows = [[0, 1, 2], [3, 4, 5], [6, 7, 8]], grids = [[0, 1, 2]]\<rparr> 0 =
     Some [[0, 1, 2], [3, 4, 5], [6, 7, 8]] \<and>
   valid_state [[0, 1, 2], [3, 4, 5], [6, 7, 8]] \<and>
   p_acciones \<lparr>rows = [[0, 1, 2], [3, 4, 5], [6, 7, 8]], grids = [[0, 1, 2]]\<rparr> 0 =
     (Inr [''DOWN'', ''RIGHT''],
      \<lparr>rows = [[0, 1, 2], [3, 4, 5], [6, 7, 8]], grids = [[0, 1, 2]]\<rparr>)"
proof -
  from p_acciones_legal_moves [OF grid_of_goal valid_state_goal] obtain zr zc
    where z: "zr < 3" "zc < 3" "[[0, 1, 2], [3, 4, 5], [6, 7, 8 :: int]] ! zr ! zc = 0"
      and a: "p_acciones \<lparr>rows = [[0, 1, 2], [3, 4, 5], [6, 7, 8]], grids = [[0, 1, 2]]\<rparr> 0 =
             (Inr (filter (\<lambda>a. a = ''UP'' \<and> 0 < zr \<or> a = ''DOWN'' \<and> zr < 2 \<or>
                               a = ''LEFT'' \<and> 0 < zc \<or> a = ''RIGHT'' \<and> zc < 2)
                     [''UP'', ''DOWN'', ''LEFT'', ''RIGHT'']),
              \<lparr>rows = [[0, 1, 2], [3, 4, 5], [6, 7, 8]], grids = [[0, 1, 2]]\<rparr>)"
    by (elim exE conjE)
  from z have "zr = 0 \<and> zc = 0" by (rule goal_blank)
  with a have "p_acciones \<lparr>rows = [[0, 1, 2], [3, 4, 5], [6, 7, 8]], grids = [[0, 1, 2]]\<rparr> 0 =
     (Inr [''DOWN'', ''RIGHT''],
      \<lparr>rows = [[0, 1, 2], [3, 4, 5], [6, 7, 8]], grids = [[0, 1, 2]]\<rparr>)"
    by simp
  with grid_of_goal valid_state_goal show ?thesis by (intro conjI)
qed

lemma p_acciones_102:
  "p_acciones \<lparr>rows = [[1, 0, 2], [3, 4, 5], [6, 7, 8]], grids = [[0, 1, 2]]\<rparr> 0 =
     (Inr [''DOWN'', ''LEFT'', ''RIGHT''],
      \<lparr>rows = [[1, 0, 2], [3, 4, 5], [6, 7, 8]], grids = [[0, 1, 2]]\<rparr>)"
  by (simp add: p_acciones_def buscar_cero_def positions_eval cell_def grid_at_def
        getitem_def row_at_def)

theorem p_resultado_swaps_blank_witness:
  "grid_of \<lparr>rows = [[1, 0, 2], [3, 4, 5], [6, 7, 8]], grids = [[0, 1, 2]]\<rparr> 0 =
     Some [[1, 0, 2], [3, 4, 5], [6, 7, 8]] \<and>
   valid_state [[1, 0, 2], [3, 4, 5], [6, 7, 8]] \<and>
   p_acciones \<lparr>rows = [[1, 0, 2], [3, 4, 5], [6, 7, 8]], grids = [[0, 1, 2]]\<rparr> 0 =
     (Inr [''DOWN'', ''LEFT'', ''RIGHT''],
      \<lparr>rows = [[1, 0, 2], [3, 4, 5], [6, 7, 8]], grids = [[0, 1, 2]]\<rparr>) \<and>
   ''LEFT'' \<in> set [''DOWN'', ''LEFT'', ''RIGHT''] \<and>
   (\<exists>s' h' g'.
      p_resultado \<lparr>rows = [[1, 0, 2], [3, 4, 5], [6, 7, 8]], grids = [[0, 1, 2]]\<rparr> 0 ''LEFT'' =
        (Inr s', h') \<and>
      grid_of h' s' = Some g' \<and> valid_state g' \<and>
      grid_of h' 0 = Some [[1, 0, 2], [3, 4, 5], [6, 7, 8]] \<and>
      preserved \<lparr>rows = [[1, 0, 2], [3, 4, 5], [6, 7, 8]], grids = [[0, 1, 2]]\<rparr> h')"
proof -
  have m: "''LEFT'' \<in> set [''DOWN'', ''LEFT'', ''RIGHT'']" by simp
  from p_resultado_swaps_blank [OF grid_of_102 valid_state_102 p_acciones_102 m] obtain s' h' g'
    where "p_resultado \<lparr>rows = [[1, 0, 2], [3, 4, 5], [6, 7, 8]], grids = [[0, 1, 2]]\<rparr> 0 ''LEFT'' =
        (Inr s', h')"
      "grid_of h' s' = Some g'" "valid_state g'"
      "grid_of h' 0 = Some [[1, 0, 2], [3, 4, 5], [6, 7, 8]]"
      "preserved \<lparr>rows = [[1, 0, 2], [3, 4, 5], [6, 7, 8]], grids = [[0, 1, 2]]\<rparr> h'"
    by (elim exE conjE)
  then have "\<exists>s' h' g'.
      p_resultado \<lparr>rows = [[1, 0, 2], [3, 4, 5], [6, 7, 8]], grids = [[0, 1, 2]]\<rparr> 0 ''LEFT'' =
        (Inr s', h') \<and>
      grid_of h' s' = Some g' \<and> valid_state g' \<and>
      grid_of h' 0 = Some [[1, 0, 2], [3, 4, 5], [6, 7, 8]] \<and>
      preserved \<lparr>rows = [[1, 0, 2], [3, 4, 5], [6, 7, 8]], grids = [[0, 1, 2]]\<rparr> h'"
    by - (rule exI [of _ s'], rule exI [of _ h'], rule exI [of _ g'], (intro conjI; assumption))
  with grid_of_102 valid_state_102 p_acciones_102 m show ?thesis by (intro conjI)
qed

theorem p_resultado_errors_witness:
  "grid_of \<lparr>rows = [[0, 1, 2], [3, 4, 5], [6, 7, 8]], grids = [[0, 1, 2]]\<rparr> 0 =
     Some [[0, 1, 2], [3, 4, 5], [6, 7, 8]] \<and>
   valid_state [[0, 1, 2], [3, 4, 5], [6, 7, 8]] \<and>
   ''JUMP'' \<notin> {''UP'', ''DOWN'', ''LEFT'', ''RIGHT''} \<and>
   (\<exists>h'. p_resultado \<lparr>rows = [[0, 1, 2], [3, 4, 5], [6, 7, 8]], grids = [[0, 1, 2]]\<rparr> 0 ''JUMP'' =
           (Inl (ValueError ''Accion invalida: JUMP''), h') \<and>
         preserved \<lparr>rows = [[0, 1, 2], [3, 4, 5], [6, 7, 8]], grids = [[0, 1, 2]]\<rparr> h' \<and>
         grid_of h' 0 = Some [[0, 1, 2], [3, 4, 5], [6, 7, 8]]) \<and>
   (\<exists>h'. p_resultado \<lparr>rows = [[0, 1, 2], [3, 4, 5], [6, 7, 8]], grids = [[0, 1, 2]]\<rparr> 0 ''UP'' =
           (Inl (IndexError ''Movimiento fuera de limites''), h') \<and>
         preserved \<lparr>rows = [[0, 1, 2], [3, 4, 5], [6, 7, 8]], grids = [[0, 1, 2]]\<rparr> h' \<and>
         grid_of h' 0 = Some [[0, 1, 2], [3, 4, 5], [6, 7, 8]])"
proof -
  let ?h = "\<lparr>rows = [[0, 1, 2], [3, 4, 5], [6, 7, 8]], grids = [[0, 1, 2]]\<rparr>"
  let ?g = "[[0, 1, 2], [3, 4, 5], [6, 7, 8 :: int]]"
  have j: "''JUMP'' \<notin> {''UP'', ''DOWN'', ''LEFT'', ''RIGHT''}" by simp
  from p_resultado_errors [OF grid_of_goal valid_state_goal, of "''JUMP''"] obtain zr zc :: nat
    where i: "''JUMP'' \<notin> {''UP'', ''DOWN'', ''LEFT'', ''RIGHT''} \<longrightarrow>
              (\<exists>h'. p_resultado ?h 0 ''JUMP'' = (Inl (ValueError (''Accion invalida: '' @ ''JUMP'')), h'))"
      and f: "\<forall>e h'. p_resultado ?h 0 ''JUMP'' = (Inl e, h') \<longrightarrow>
              preserved ?h h' \<and> grid_of h' 0 = Some ?g \<and>
              (''JUMP'' \<notin> {''UP'', ''DOWN'', ''LEFT'', ''RIGHT''} \<or>
               ''JUMP'' = ''UP'' \<and> zr = 0 \<or> ''JUMP'' = ''DOWN'' \<and> zr = 2 \<or>
               ''JUMP'' = ''LEFT'' \<and> zc = 0 \<or> ''JUMP'' = ''RIGHT'' \<and> zc = 2)"
    by (elim exE conjE)
  from i j obtain h1
    where r1: "p_resultado ?h 0 ''JUMP'' = (Inl (ValueError (''Accion invalida: '' @ ''JUMP'')), h1)"
    by (elim impE exE)
  with f have "preserved ?h h1 \<and> grid_of h1 0 = Some ?g" by (elim allE impE conjE) (assumption, rule conjI)
  with r1 have a: "\<exists>h'. p_resultado ?h 0 ''JUMP'' = (Inl (ValueError ''Accion invalida: JUMP''), h') \<and>
         preserved ?h h' \<and> grid_of h' 0 = Some ?g"
    by - (rule exI [of _ h1], simp)
  from p_resultado_errors [OF grid_of_goal valid_state_goal, of "''UP''"] obtain zr zc :: nat
    where z: "zr < 3" "zc < 3" "?g ! zr ! zc = 0"
      and u: "zr = 0 \<and> zc = 0 \<longrightarrow>
              (\<exists>h'. p_resultado ?h 0 ''UP'' = (Inl (IndexError ''Movimiento fuera de limites''), h'))"
      and f': "\<forall>e h'. p_resultado ?h 0 ''UP'' = (Inl e, h') \<longrightarrow>
              preserved ?h h' \<and> grid_of h' 0 = Some ?g \<and>
              (''UP'' \<notin> {''UP'', ''DOWN'', ''LEFT'', ''RIGHT''} \<or>
               ''UP'' = ''UP'' \<and> zr = 0 \<or> ''UP'' = ''DOWN'' \<and> zr = 2 \<or>
               ''UP'' = ''LEFT'' \<and> zc = 0 \<or> ''UP'' = ''RIGHT'' \<and> zc = 2)"
    by (elim exE conjE)
  from z have "zr = 0 \<and> zc = 0" by (rule goal_blank)
  with u obtain h2
    where r2: "p_resultado ?h 0 ''UP'' = (Inl (IndexError ''Movimiento fuera de limites''), h2)"
    by (elim impE exE)
  with f' have "preserved ?h h2 \<and> grid_of h2 0 = Some ?g" by (elim allE impE conjE) (assumption, rule conjI)
  with r2 have b: "\<exists>h'. p_resultado ?h 0 ''UP'' = (Inl (IndexError ''Movimiento fuera de limites''), h') \<and>
         preserved ?h h' \<and> grid_of h' 0 = Some ?g"
    by - (rule exI [of _ h2], simp)
  from grid_of_goal valid_state_goal j a b show ?thesis by (intro conjI)
qed

section \<open>Eight puzzle: the objective value\<close>

lemma init_pos_objetivo_eval:
  "init_pos_objetivo =
     [0 \<mapsto> (0, 0), 1 \<mapsto> (0, 1), 2 \<mapsto> (0, 2), 3 \<mapsto> (1, 0), 4 \<mapsto> (1, 1), 5 \<mapsto> (1, 2),
      6 \<mapsto> (2, 0), 7 \<mapsto> (2, 1), 8 \<mapsto> (2, 2)]"
  by (simp add: init_pos_objetivo_def positions_eval GOAL_def)

lemma pos_objetivo_distance:
  assumes "1 \<le> v" and "v \<le> 8"
  shows "\<exists>gr gc. init_pos_objetivo v = Some (gr, gc) \<and>
           goal_distance r c v = \<bar>int r - int gr\<bar> + \<bar>int c - int gc\<bar>"
proof -
  from assms have "v = 1 \<or> v = 2 \<or> v = 3 \<or> v = 4 \<or> v = 5 \<or> v = 6 \<or> v = 7 \<or> v = 8"
    by arith
  then show ?thesis
    by (elim disjE) (simp_all add: init_pos_objetivo_eval goal_distance_def positions_eval GOAL_def)
qed

lemma goal_distance_nonneg: "0 \<le> goal_distance r c v"
  unfolding goal_distance_def by (rule sum_list_nonneg) auto

lemma p_valor_loop_sum:
  assumes "\<forall>(r, c)\<in>set ps. cell h s r c = Inr (g ! r ! c) \<and> 0 \<le> g ! r ! c \<and> g ! r ! c \<le> 8"
  shows "p_valor_loop init_pos_objetivo h s tot ps =
           Inr (tot + (\<Sum>(r, c)\<leftarrow>ps. if g ! r ! c = 0 then 0
                                    else goal_distance r c (g ! r ! c)))"
  using assms
proof (induction ps arbitrary: tot)
  case Nil
  then show ?case by simp
next
  case (Cons p ps)
  obtain r c where p: "p = (r, c)" by (cases p)
  from Cons.prems p have c: "cell h s r c = Inr (g ! r ! c)" and v: "0 \<le> g ! r ! c" "g ! r ! c \<le> 8"
    by simp_all
  from Cons.prems
  have rest: "\<forall>(r, c)\<in>set ps. cell h s r c = Inr (g ! r ! c) \<and> 0 \<le> g ! r ! c \<and> g ! r ! c \<le> 8"
    by simp
  show ?case
  proof (cases "g ! r ! c = 0")
    case True
    with Cons.IH [OF rest, of tot] c show ?thesis by (simp add: p)
  next
    case False
    with v have "1 \<le> g ! r ! c" by simp
    from pos_objetivo_distance [OF this v(2), of r c] obtain gr gc
      where q: "init_pos_objetivo (g ! r ! c) = Some (gr, gc)"
        "goal_distance r c (g ! r ! c) = \<bar>int r - int gr\<bar> + \<bar>int c - int gc\<bar>"
      by blast
    from Cons.IH [OF rest, of "tot + (\<bar>int r - int gr\<bar> + \<bar>int c - int gc\<bar>)"] c False q
    show ?thesis by (simp add: p)
  qed
qed


lemma valid_state_range:
  assumes "valid_state g" and "r < 3" and "c < 3"
  shows "0 \<le> g ! r ! c \<and> g ! r ! c \<le> 8"
proof -
  from assms(1) have l: "length g = 3" "length (g ! r) = 3"
    using assms(2) by (auto simp: valid_state_def)
  from assms(1) have "mset (concat g) = mset [0..8]" by (simp add: valid_state_def)
  then have "set (concat g) = set [0..8]" by (rule mset_eq_setD)
  moreover have "g ! r ! c \<in> set (concat g)"
    using l assms(2,3) by (auto intro!: bexI [of _ "g ! r"])
  ultimately show ?thesis by simp
qed

lemma p_valor_objetivo_manhattan:
  assumes "grid_of h s = Some g" and "valid_state g" and "pos_objetivo self = init_pos_objetivo"
  shows "p_valor_objetivo self h s = (Inr (manhattan_sum g), h)"
proof -
  have "\<forall>(r, c)\<in>set positions.
          cell h s r c = Inr (g ! r ! c) \<and> 0 \<le> g ! r ! c \<and> g ! r ! c \<le> 8"
  proof (intro ballI, clarify)
    fix r c assume "(r, c) \<in> set positions"
    then have rc: "r < 3" "c < 3" by (simp_all add: set_positions)
    with assms(2) have "length g = 3" "length (g ! r) = 3"
      by (auto simp: valid_state_def)
    with assms(1) rc have "cell h s r c = Inr (g ! r ! c)"
      by (intro grid_of_cell) simp_all
    with valid_state_range [OF assms(2) rc]
    show "cell h s r c = Inr (g ! r ! c) \<and> 0 \<le> g ! r ! c \<and> g ! r ! c \<le> 8"
      by simp
  qed
  from p_valor_loop_sum [OF this, of 0] show ?thesis
    by (simp add: p_valor_objetivo_def assms(3) manhattan_sum_def)
qed

lemma manhattan_sum_nonneg: "0 \<le> manhattan_sum g"
  unfolding manhattan_sum_def
  by (rule sum_list_nonneg) (auto simp: goal_distance_nonneg)

lemma manhattan_sum_GOAL: "manhattan_sum GOAL = 0"
  by (simp add: manhattan_sum_def goal_distance_def positions_eval GOAL_def)

lemma p_init_pos_objetivo:
  assumes "p_init shuffle g0 h initial = Some ((Inr self, h'), g1)"
  shows "pos_objetivo self = init_pos_objetivo"
  using assms by (auto simp: p_init_def split: option.splits prod.splits sum.splits)

text \<open>
  Claim C3. For a problem instance as \<open>__init__\<close> builds it and a valid state,
  \<open>valor_objetivo\<close> returns the sum, over the non-zero cells, of the Manhattan distance
  between the cell and the place of its value in \<open>GOAL\<close>, and leaves the store as it was.
  The sum is never negative, and it is 0 on \<open>GOAL\<close> itself.
\<close>

theorem p_valor_objetivo_manhattan_distance:
  assumes "grid_of h s = Some g" and "valid_state g" and "pos_objetivo self = init_pos_objetivo"
  shows "p_valor_objetivo self h s = (Inr (manhattan_sum g), h) \<and>
         0 \<le> manhattan_sum g \<and>
         (g = GOAL \<longrightarrow> p_valor_objetivo self h s = (Inr 0, h))"
proof (intro conjI impI)
  show v: "p_valor_objetivo self h s = (Inr (manhattan_sum g), h)"
    using assms by (rule p_valor_objetivo_manhattan)
  show "0 \<le> manhattan_sum g" by (rule manhattan_sum_nonneg)
  assume "g = GOAL"
  with v show "p_valor_objetivo self h s = (Inr 0, h)"
    by (simp add: manhattan_sum_GOAL)
qed

theorem p_valor_objetivo_manhattan_distance_witness:
  "grid_of \<lparr>rows = [[1, 0, 2], [3, 4, 5], [6, 7, 8]], grids = [[0, 1, 2]]\<rparr> 0 =
     Some [[1, 0, 2], [3, 4, 5], [6, 7, 8]] \<and>
   valid_state [[1, 0, 2], [3, 4, 5], [6, 7, 8]] \<and>
   pos_objetivo \<lparr>p_initial = 0, pos_objetivo = init_pos_objetivo\<rparr> = init_pos_objetivo \<and>
   manhattan_sum [[1, 0, 2], [3, 4, 5], [6, 7, 8]] = 1 \<and>
   p_valor_objetivo \<lparr>p_initial = 0, pos_objetivo = init_pos_objetivo\<rparr>
       \<lparr>rows = [[1, 0, 2], [3, 4, 5], [6, 7, 8]], grids = [[0, 1, 2]]\<rparr> 0 =
     (Inr 1, \<lparr>rows = [[1, 0, 2], [3, 4, 5], [6, 7, 8]], grids = [[0, 1, 2]]\<rparr>) \<and>
   grid_of \<lparr>rows = [[0, 1, 2], [3, 4, 5], [6, 7, 8]], grids = [[0, 1, 2]]\<rparr> 0 = Some GOAL \<and>
   valid_state GOAL \<and>
   p_valor_objetivo \<lparr>p_initial = 0, pos_objetivo = init_pos_objetivo\<rparr>
       \<lparr>rows = [[0, 1, 2], [3, 4, 5], [6, 7, 8]], grids = [[0, 1, 2]]\<rparr> 0 =
     (Inr 0, \<lparr>rows = [[0, 1, 2], [3, 4, 5], [6, 7, 8]], grids = [[0, 1, 2]]\<rparr>)"
proof -
  let ?self = "\<lparr>p_initial = 0, pos_objetivo = init_pos_objetivo\<rparr>"
  have p: "pos_objetivo ?self = init_pos_objetivo" by simp
  have m: "manhattan_sum [[1, 0, 2], [3, 4, 5], [6, 7, 8]] = 1"
    by (simp add: manhattan_sum_def goal_distance_def positions_eval GOAL_def)
  from p_valor_objetivo_manhattan_distance [OF grid_of_102 valid_state_102 p]
  have "p_valor_objetivo ?self \<lparr>rows = [[1, 0, 2], [3, 4, 5], [6, 7, 8]], grids = [[0, 1, 2]]\<rparr> 0 =
      (Inr (manhattan_sum [[1, 0, 2], [3, 4, 5], [6, 7, 8]]),
       \<lparr>rows = [[1, 0, 2], [3, 4, 5], [6, 7, 8]], grids = [[0, 1, 2]]\<rparr>)"
    by (rule conjunct1)
  then have a: "p_valor_objetivo ?self \<lparr>rows = [[1, 0, 2], [3, 4, 5], [6, 7, 8]], grids = [[0, 1, 2]]\<rparr> 0 =
      (Inr 1, \<lparr>rows = [[1, 0, 2], [3, 4, 5], [6, 7, 8]], grids = [[0, 1, 2]]\<rparr>)"
    by (simp only: m)
  have gg: "grid_of \<lparr>rows = [[0, 1, 2], [3, 4, 5], [6, 7, 8]], grids = [[0, 1, 2]]\<rparr> 0 = Some GOAL"
    using grid_of_goal by (simp add: GOAL_def)
  have vg: "valid_state GOAL" using valid_state_goal by (simp add: GOAL_def)
  from p_valor_objetivo_manhattan_distance [OF gg vg p]
  have "GOAL = GOAL \<longrightarrow>
      p_valor_objetivo ?self \<lparr>rows = [[0, 1, 2], [3, 4, 5], [6, 7, 8]], grids = [[0, 1, 2]]\<rparr> 0 =
      (Inr 0, \<lparr>rows = [[0, 1, 2], [3, 4, 5], [6, 7, 8]], grids = [[0, 1, 2]]\<rparr>)"
    by (rule conjunct2 [THEN conjunct2])
  then have b: "p_valor_objetivo ?self \<lparr>rows = [[0, 1, 2], [3, 4, 5], [6, 7, 8]], grids = [[0, 1, 2]]\<rparr> 0 =
      (Inr 0, \<lparr>rows = [[0, 1, 2], [3, 4, 5], [6, 7, 8]], grids = [[0, 1, 2]]\<rparr>)"
    by simp
  from grid_of_102 valid_state_102 p m a gg vg b show ?thesis by (intro conjI)
qed

section \<open>Eight puzzle: random states\<close>

lemma fold_count:
  "fold (\<lambda>j inv. if P j then inv + 1 else inv) js (k :: int) = k + int (length (filter P js))"
  by (induction js arbitrary: k) simp_all

lemma fold_add:
  "fold (\<lambda>i inv. inv + f i) is (k :: int) = k + sum_list (map f is)"
  by (induction "is" arbitrary: k) simp_all

lemma contar_inversiones_sum:
  "contar_inversiones perm0 =
     (let p = filter (\<lambda>x. x \<noteq> 0) perm0 in
        (\<Sum>i\<leftarrow>[0..<length p]. int (length (filter (\<lambda>j. p ! i > p ! j) [i + 1..<length p]))))"
  by (simp add: contar_inversiones_def Let_def fold_count fold_add)

lemma inversions_Sigma:
  "inversions p = (SIGMA i:{0..<length p}. {j \<in> {i + 1..<length p}. p ! i > p ! j})"
  by (auto simp: inversions_def)

lemma card_inversions:
  "card (inversions p) =
     (\<Sum>i\<leftarrow>[0..<length p]. length (filter (\<lambda>j. p ! i > p ! j) [i + 1..<length p]))"
proof -
  have "card (inversions p) =
          (\<Sum>i\<in>{0..<length p}. card {j \<in> {i + 1..<length p}. p ! i > p ! j})"
    unfolding inversions_Sigma by (rule card_SigmaI) simp_all
  also have "\<dots> = (\<Sum>i\<in>{0..<length p}. length (filter (\<lambda>j. p ! i > p ! j) [i + 1..<length p]))"
  proof (rule sum.cong)
    fix i
    have "length (filter (\<lambda>j. p ! i > p ! j) [i + 1..<length p]) =
            card ({j. p ! i > p ! j} \<inter> set [i + 1..<length p])"
      by (rule distinct_length_filter) simp
    also have "{j. p ! i > p ! j} \<inter> set [i + 1..<length p] =
                 {j \<in> {i + 1..<length p}. p ! i > p ! j}"
      by auto
    finally show "card {j \<in> {i + 1..<length p}. p ! i > p ! j} =
                    length (filter (\<lambda>j. p ! i > p ! j) [i + 1..<length p])"
      by simp
  qed simp
  also have "\<dots> = (\<Sum>i\<leftarrow>[0..<length p]. length (filter (\<lambda>j. p ! i > p ! j) [i + 1..<length p]))"
    by (simp add: interv_sum_list_conv_sum_set_nat)
  finally show ?thesis .
qed

lemma int_sum_list: "int (sum_list (map f xs)) = (\<Sum>x\<leftarrow>xs. int (f x))"
  by (induction xs) simp_all

lemma contar_inversiones_card:
  "contar_inversiones perm = int (card (inversions (filter (\<lambda>x. x \<noteq> 0) perm)))"
  by (simp add: contar_inversiones_sum card_inversions Let_def int_sum_list)

lemma es_resoluble_even:
  "es_resoluble perm \<longleftrightarrow> even (card (inversions (filter (\<lambda>x. x \<noteq> 0) perm)))"
proof -
  have "es_resoluble perm \<longleftrightarrow> even (int (card (inversions (filter (\<lambda>x. x \<noteq> 0) perm))))"
    unfolding es_resoluble_def contar_inversiones_card by (rule even_iff_mod_2_eq_zero [symmetric])
  then show ?thesis by simp
qed

lemma barajar_hasta_resoluble_result:
  assumes "barajar_hasta_resoluble shuffle g perm = Some res"
    and "\<forall>g xs. mset (fst (shuffle g xs)) = mset xs"
  shows "es_resoluble (fst res) \<and> mset (fst res) = mset perm"
proof -
  have "(\<forall>g xs. mset (fst (shuffle g xs)) = mset xs) \<longrightarrow>
          es_resoluble (fst res) \<and> mset (fst res) = mset perm"
  proof (rule barajar_hasta_resoluble.raw_induct
      [where P = "\<lambda>sh g perm res. (\<forall>g xs. mset (fst (sh g xs)) = mset xs) \<longrightarrow>
                     es_resoluble (fst res) \<and> mset (fst res) = mset perm",
        OF _ assms(1)])
    fix rec :: "('a \<Rightarrow> int list \<Rightarrow> int list \<times> 'a) \<Rightarrow> 'a \<Rightarrow> int list \<Rightarrow> (int list \<times> 'a) option"
    fix sh g perm res
    assume IH: "\<And>sh g perm res. rec sh g perm = Some res \<Longrightarrow>
        (\<forall>g xs. mset (fst (sh g xs)) = mset xs) \<longrightarrow>
        es_resoluble (fst res) \<and> mset (fst res) = mset perm"
    assume eq: "(if \<not> es_resoluble perm
                 then rec sh (snd (sh g perm)) (fst (sh g perm))
                 else Some (perm, g)) = Some res"
    show "(\<forall>g xs. mset (fst (sh g xs)) = mset xs) \<longrightarrow>
            es_resoluble (fst res) \<and> mset (fst res) = mset perm"
    proof (cases "es_resoluble perm")
      case True
      with eq show ?thesis by auto
    next
      case False
      with eq have "rec sh (snd (sh g perm)) (fst (sh g perm)) = Some res"
        by simp
      from IH [OF this] show ?thesis by simp
    qed
  qed
  with assms(2) show ?thesis by simp
qed

text \<open>
  The loop returns as soon as the shuffles reach a permutation with an even number of
  inversions.
\<close>

lemma barajar_hasta_resoluble_returns:
  assumes "es_resoluble (fst (((\<lambda>(p, g). shuffle g p) ^^ k) (perm, g)))"
  shows "\<exists>res. barajar_hasta_resoluble shuffle g perm = Some res"
  using assms
proof (induction k arbitrary: perm g)
  case 0
  then show ?case by (simp add: barajar_hasta_resoluble.simps)
next
  case (Suc k)
  show ?case
  proof (cases "es_resoluble perm")
    case True
    then show ?thesis by (simp add: barajar_hasta_resoluble.simps)
  next
    case False
    from Suc.prems
    have "es_resoluble (fst (((\<lambda>(p, g). shuffle g p) ^^ k)
            (fst (shuffle g perm), snd (shuffle g perm))))"
      by (simp add: funpow_swap1)
    from Suc.IH [OF this] False show ?thesis
      by (subst barajar_hasta_resoluble.simps) simp
  qed
qed

lemma grid_of_three_rows:
  "grid_of \<lparr>rows = R @ [r0, r1, r2], grids = Gs @ [[length R, Suc (length R), Suc (Suc (length R))]]\<rparr>
     (length Gs) = Some [r0, r1, r2]"
  by (simp add: grid_of_def nth_append)

lemma p_estado_aleatorio_result:
  assumes "p_estado_aleatorio shuffle g h = Some ((s, h'), g')"
  obtains perm1 g1 perm where "shuffle g [0..8] = (perm1, g1)"
    and "barajar_hasta_resoluble shuffle g1 perm1 = Some (perm, g')"
    and "s = length (grids h)"
    and "h' = \<lparr>rows = rows h @ [take 3 perm, take 3 (drop 3 perm), take 3 (drop 6 perm)],
               grids = grids h @ [[length (rows h), Suc (length (rows h)),
                                   Suc (Suc (length (rows h)))]]\<rparr>"
  using assms
  by (auto simp: p_estado_aleatorio_def new_row_def new_grid_def
        split: prod.splits option.splits)

text \<open>
  Claim C1. Whatever \<open>random.shuffle\<close> draws, as long as it permutes its argument: a
  grid that \<open>estado_aleatorio\<close> returns has three rows of three cells, holds the values
  0..8 once each (so one cell holds 0), and its row-major flattening with the 0 removed has
  an even number of inversions. The grid is a new object of the store.
\<close>

theorem p_estado_aleatorio_solvable:
  assumes "\<forall>g xs. mset (fst (shuffle g xs)) = mset xs"
    and "p_estado_aleatorio shuffle g h = Some ((s, h'), g')"
  shows "\<exists>grid. grid_of h' s = Some grid \<and>
           length grid = 3 \<and> (\<forall>row\<in>set grid. length row = 3) \<and>
           mset (concat grid) = mset [0..8] \<and>
           count (mset (concat grid)) 0 = 1 \<and>
           even (card (inversions (filter (\<lambda>x. x \<noteq> 0) (concat grid)))) \<and>
           preserved h h' \<and> grid_of h s = None"
proof -
  from assms(2) obtain perm1 g1 perm where sh: "shuffle g [0..8] = (perm1, g1)"
    and b: "barajar_hasta_resoluble shuffle g1 perm1 = Some (perm, g')"
    and s: "s = length (grids h)"
    and h': "h' = \<lparr>rows = rows h @ [take 3 perm, take 3 (drop 3 perm), take 3 (drop 6 perm)],
               grids = grids h @ [[length (rows h), Suc (length (rows h)),
                                   Suc (Suc (length (rows h)))]]\<rparr>"
    by (rule p_estado_aleatorio_result)
  let ?grid = "[take 3 perm, take 3 (drop 3 perm), take 3 (drop 6 perm)]"
  from assms(1) sh have m1: "mset perm1 = mset [0..8]"
    by (metis fst_conv)
  from barajar_hasta_resoluble_result [OF b assms(1)] m1
  have r: "es_resoluble perm" and m: "mset perm = mset [0..8]"
    by simp_all
  from m have "length perm = length [0..8::int]" by (rule mset_eq_length)
  then have l: "length perm = 9" by (simp add: upto_rec1)
  have c: "concat ?grid = perm"
  proof -
    have t: "take 3 (drop 6 perm) = drop 6 perm" using l by simp
    have "take 3 (drop 3 perm) @ drop 3 (drop 3 perm) = drop 3 perm"
      by (rule append_take_drop_id)
    then have d: "take 3 (drop 3 perm) @ drop 6 perm = drop 3 perm" by simp
    have "concat ?grid = take 3 perm @ (take 3 (drop 3 perm) @ drop 6 perm)"
      by (simp add: t)
    then show ?thesis by (simp only: d append_take_drop_id)
  qed
  have g: "grid_of h' s = Some ?grid"
    unfolding h' s by (rule grid_of_three_rows)
  have len: "length ?grid = 3" by simp
  have rows3: "\<forall>row\<in>set ?grid. length row = 3" using l by simp
  have cnt: "count (mset (concat ?grid)) 0 = 1"
    unfolding c m by (simp add: upto_rec1)
  have ev: "even (card (inversions (filter (\<lambda>x. x \<noteq> 0) (concat ?grid))))"
    unfolding c using r by (simp only: es_resoluble_even)
  have p: "preserved h h'" unfolding h' by (simp add: preserved_def)
  have f: "grid_of h s = None" unfolding s by (simp add: grid_of_def)
  from m have mc: "mset (concat ?grid) = mset [0..8]" by (simp only: c)
  from g len rows3 mc cnt ev p f show ?thesis
    by - (rule exI [of _ ?grid], (intro conjI; assumption))
qed

lemma mset_rotate1_eq: "mset (rotate1 xs) = mset xs"
  by (cases xs) simp_all

lemma mset_rotate_eq: "mset (rotate n xs) = mset xs"
  by (induction n) (simp_all add: mset_rotate1_eq)

lemma es_resoluble_examples:
  "\<not> es_resoluble [2, 3, 4, 5, 6, 7, 8, 0, 1]"
  "\<not> es_resoluble [4, 5, 6, 7, 8, 0, 1, 2, 3]"
  "\<not> es_resoluble [6, 7, 8, 0, 1, 2, 3, 4, 5]"
  "\<not> es_resoluble [8, 0, 1, 2, 3, 4, 5, 6, 7]"
  "es_resoluble [1, 2, 3, 4, 5, 6, 7, 8, 0]"
  by code_simp+

lemma rotate_two: "rotate 2 (x # y # zs) = zs @ [x, y]"
  by (simp add: numeral_2_eq_2)

lemma barajar_example:
  "barajar_hasta_resoluble (\<lambda>g xs. (rotate 2 xs, Suc g)) (Suc 0) [2, 3, 4, 5, 6, 7, 8, 0, 1] =
     Some ([1, 2, 3, 4, 5, 6, 7, 8, 0], 5)"
  apply (subst barajar_hasta_resoluble.simps, simp only: es_resoluble_examples simp_thms if_True
           fst_conv snd_conv rotate_two append.simps)
  apply (subst barajar_hasta_resoluble.simps, simp only: es_resoluble_examples simp_thms if_True
           fst_conv snd_conv rotate_two append.simps)
  apply (subst barajar_hasta_resoluble.simps, simp only: es_resoluble_examples simp_thms if_True
           fst_conv snd_conv rotate_two append.simps)
  apply (subst barajar_hasta_resoluble.simps, simp only: es_resoluble_examples simp_thms if_True
           fst_conv snd_conv rotate_two append.simps)
  apply (subst barajar_hasta_resoluble.simps, simp only: es_resoluble_examples simp_thms if_False)
  apply simp
  done

lemma p_estado_aleatorio_example:
  "p_estado_aleatorio (\<lambda>g xs. (rotate 2 xs, Suc g)) 0 \<lparr>rows = [], grids = []\<rparr> =
     Some ((0, \<lparr>rows = [[1, 2, 3], [4, 5, 6], [7, 8, 0]], grids = [[0, 1, 2]]\<rparr>), 5)"
proof -
  have "rotate 2 [0..8] = [2, 3, 4, 5, 6, 7, 8, 0, 1]"
    by (simp add: upto_rec1 rotate_two)
  then show ?thesis
    by (simp add: p_estado_aleatorio_def barajar_example new_row_def new_grid_def)
qed

theorem p_estado_aleatorio_solvable_witness:
  "(\<forall>xs :: int list. mset (rotate 2 xs) = mset xs) \<and>
   p_estado_aleatorio (\<lambda>g xs. (rotate 2 xs, Suc g)) 0 \<lparr>rows = [], grids = []\<rparr> =
     Some ((0, \<lparr>rows = [[1, 2, 3], [4, 5, 6], [7, 8, 0]], grids = [[0, 1, 2]]\<rparr>), 5) \<and>
   (\<exists>grid. grid_of \<lparr>rows = [[1, 2, 3], [4, 5, 6], [7, 8, 0]], grids = [[0, 1, 2]]\<rparr> 0 = Some grid \<and>
      length grid = 3 \<and>
      mset (concat grid) = mset [0..8] \<and>
      count (mset (concat grid)) 0 = 1 \<and>
      even (card (inversions (filter (\<lambda>x. x \<noteq> 0) (concat grid)))))"
proof -
  have p: "\<forall>(g :: nat) xs. mset (fst ((\<lambda>g xs. (rotate 2 xs, Suc g)) g xs)) = mset (xs :: int list)"
    by (simp add: mset_rotate_eq)
  from p_estado_aleatorio_solvable [OF p p_estado_aleatorio_example] obtain grid
    where "grid_of \<lparr>rows = [[1, 2, 3], [4, 5, 6], [7, 8, 0]], grids = [[0, 1, 2]]\<rparr> 0 = Some grid"
      "length grid = 3" "mset (concat grid) = mset [0..8]" "count (mset (concat grid)) 0 = 1"
      "even (card (inversions (filter (\<lambda>x. x \<noteq> 0) (concat grid))))"
    by (elim exE conjE)
  then have e: "\<exists>grid. grid_of \<lparr>rows = [[1, 2, 3], [4, 5, 6], [7, 8, 0]], grids = [[0, 1, 2]]\<rparr> 0 = Some grid \<and>
      length grid = 3 \<and>
      mset (concat grid) = mset [0..8] \<and>
      count (mset (concat grid)) 0 = 1 \<and>
      even (card (inversions (filter (\<lambda>x. x \<noteq> 0) (concat grid))))"
    by - (rule exI [of _ grid], (intro conjI; assumption))
  have r: "\<forall>xs :: int list. mset (rotate 2 xs) = mset xs" by (simp add: mset_rotate_eq)
  from r p_estado_aleatorio_example e show ?thesis by (intro conjI)
qed

end
